theory Spec2Isabelle
  imports Complex_Main
begin

section \<open>The CosplayAI front end as an event system\<close>

text \<open>
  The repository is a React front end: \<open>App.tsx\<close> owns the generation state,
  \<open>PhotoUpload.tsx\<close> validates and reads the dropped file, \<open>GenerationProgress.tsx\<close>
  animates a progress value and polls the provider, \<open>CharacterSelection.tsx\<close> loads the
  character catalog. Each handler of the source is a function on an explicit system
  state; every \<open>await\<close> and every callback that the browser runs later (a FileReader
  load, a fetch response, a timer) is an event of its own, so that the interleavings the
  event loop allows are the interleavings of the model.

  JavaScript numbers are modelled exactly: byte sizes, milliseconds and the App's
  \<open>progress\<close> as natural numbers, the animated \<open>currentProgress\<close> as a rational
  (the rounding of a double addition is not modelled). A value that may be \<open>null\<close> or
  \<open>undefined\<close> is an \<open>option\<close>.
\<close>

subsection \<open>Strings\<close>

definition startsWith :: "string \<Rightarrow> string \<Rightarrow> bool" where
  "startsWith s p = (take (length p) s = p)"

text \<open>JavaScript truthiness of a value that is a string, \<open>null\<close> or \<open>undefined\<close>.\<close>

definition truthy :: "string option \<Rightarrow> bool" where
  "truthy v = (case v of None \<Rightarrow> False | Some x \<Rightarrow> x \<noteq> [])"

subsection \<open>CharacterSelection.tsx: the catalog\<close>

record Character =
  char_id :: string
  name :: string
  style :: string
  description :: string

record CharacterSelection =
  characters :: "Character list"
  loading :: bool
  catalog_error :: "string option"






definition initialCatalog :: CharacterSelection where
  "initialCatalog = \<lparr>characters = [], loading = True, catalog_error = None\<rparr>"

subsection \<open>App.tsx: the generation state\<close>

datatype status = Idle | Uploading | Processing | Completed | Error

record GenerationState =
  id' :: "string option"
  status :: status
  progress :: nat
  result :: "string option"
  error :: "string option"

subsection \<open>PhotoUpload.tsx and GenerationProgress.tsx: component state\<close>

record File =
  file_type :: string
  file_size :: nat
  dataURL :: string

record PhotoUpload =
  dragActive :: bool
  preview :: "string option"
  upload_error :: "string option"

text \<open>
  The three timers of \<open>GenerationProgress\<close> hold the time in milliseconds at which they
  fire next, \<open>None\<close> when cleared or never set: \<open>interval\<close> (1000 ms, the animation),
  \<open>pollInterval\<close> (2000 ms) and \<open>timeout\<close> (300000 ms, one shot).
\<close>

record GenerationProgress =
  currentProgress :: rat
  statusMessage :: string
  interval :: "nat option"
  pollInterval :: "nat option"
  timeout :: "nat option"

subsection \<open>Requests and pending asynchronous work\<close>

datatype part = Text string | Blob string string

datatype request =
    PostGenerate "(string \<times> part) list"
  | GetGeneration string

datatype phase = AwaitBlob | AwaitPost

text \<open>
  A call of \<open>handleImageUpload\<close> that is suspended at an \<open>await\<close>: its image data, the
  \<open>selectedCharacter\<close> its closure captured, and where it waits.
\<close>

datatype upload = Upload string string phase

record sys =
  generationState :: GenerationState
  selectedCharacter :: string
  uploadedImage :: "string option"
  photoUpload :: PhotoUpload
  generationProgress :: "GenerationProgress option"
  now :: nat
  readers :: "(string \<times> string) list"
  uploads :: "upload list"
  polls :: "string list"
  requests :: "request list"

definition initialState :: sys where
  "initialState =
    \<lparr>generationState = \<lparr>id' = None, status = Idle, progress = 0, result = None, error = None\<rparr>,
     selectedCharacter = ''sailor-moon'',
     uploadedImage = None,
     photoUpload = \<lparr>dragActive = False, preview = None, upload_error = None\<rparr>,
     generationProgress = None,
     now = 0,
     readers = [],
     uploads = [],
     polls = [],
     requests = []\<rparr>"

definition remove_nth :: "nat \<Rightarrow> 'a list \<Rightarrow> 'a list" where
  "remove_nth i xs = take i xs @ drop (Suc i) xs"

subsection \<open>Rendering: mounting, effects and their cleanup\<close>

text \<open>
  \<open>App\<close> shows \<open>GenerationProgress\<close> exactly while the status is uploading or
  processing. A fresh mount starts from \<open>useState(0)\<close> and \<open>useState('')\<close>.
\<close>

definition shown :: "status \<Rightarrow> bool" where
  "shown st = (st = Uploading \<or> st = Processing)"

definition mounted :: GenerationProgress where
  "mounted = \<lparr>currentProgress = 0, statusMessage = [], interval = None,
               pollInterval = None, timeout = None\<rparr>"

text \<open>
  The first effect (dependency \<open>[status]\<close>): its cleanup clears the animation interval,
  its body sets the message and the progress and, when processing, starts the interval.
\<close>

definition progressCleanup :: "GenerationProgress \<Rightarrow> GenerationProgress" where
  "progressCleanup g = g\<lparr>interval := None\<rparr>"

definition progressEffect :: "status \<Rightarrow> nat \<Rightarrow> GenerationProgress \<Rightarrow> GenerationProgress" where
  "progressEffect st t g =
    (if st = Uploading then
       g\<lparr>statusMessage := ''Uploading your photo...'', currentProgress := 10\<rparr>
     else if st = Processing then
       g\<lparr>statusMessage := ''Generating your cosplay image...'', currentProgress := 20,
         interval := Some (t + 1000)\<rparr>
     else g)"

text \<open>
  The second effect (dependencies \<open>[generationId, status, onComplete, onError]\<close>): its
  cleanup clears the poll interval and the timeout, its body starts both when there is
  a generation id and the status is processing.
\<close>

definition pollCleanup :: "GenerationProgress \<Rightarrow> GenerationProgress" where
  "pollCleanup g = g\<lparr>pollInterval := None, timeout := None\<rparr>"

definition pollEffect :: "string option \<Rightarrow> status \<Rightarrow> nat \<Rightarrow> GenerationProgress \<Rightarrow> GenerationProgress" where
  "pollEffect generationId st t g =
    (if truthy generationId \<and> st = Processing then
       g\<lparr>pollInterval := Some (t + 2000), timeout := Some (t + 300000)\<rparr>
     else g)"

text \<open>
  What a render of \<open>App\<close> does to the progress component, given the status of the
  previous render. The component is unmounted (all cleanups run, its state is dropped),
  freshly mounted (both effects run), or re-rendered: then the first effect runs again
  only if \<open>status\<close> changed, and the second always, since \<open>onComplete\<close> and
  \<open>onError\<close> are new functions in every render of \<open>App\<close>.
\<close>

definition rerender :: "status \<Rightarrow> GenerationState \<Rightarrow> nat \<Rightarrow> GenerationProgress option \<Rightarrow> GenerationProgress option" where
  "rerender old gs t mnt =
    (if \<not> shown (status gs) then None
     else
       (let g1 = (case mnt of
                    None \<Rightarrow> progressEffect (status gs) t mounted
                  | Some g \<Rightarrow>
                      if old \<noteq> status gs then progressEffect (status gs) t (progressCleanup g)
                      else g)
        in Some (pollEffect (id' gs) (status gs) t (pollCleanup g1))))"

definition render :: "status \<Rightarrow> sys \<Rightarrow> sys" where
  "render old s =
    s\<lparr>generationProgress := rerender old (generationState s) (now s) (generationProgress s)\<rparr>"

text \<open>\<open>setGenerationState\<close> with a new state object, and the render that follows.\<close>

definition setGenerationState :: "GenerationState \<Rightarrow> sys \<Rightarrow> sys" where
  "setGenerationState gs s = render (status (generationState s)) (s\<lparr>generationState := gs\<rparr>)"

subsection \<open>App.tsx: the handlers\<close>

definition handleGenerationStart :: "string option \<Rightarrow> sys \<Rightarrow> sys" where
  "handleGenerationStart generationId s =
    setGenerationState ((generationState s)\<lparr>id' := generationId, status := Processing, progress := 0\<rparr>) s"

definition handleGenerationComplete :: "string \<Rightarrow> sys \<Rightarrow> sys" where
  "handleGenerationComplete r s =
    setGenerationState ((generationState s)\<lparr>status := Completed, progress := 100, result := Some r\<rparr>) s"

definition handleGenerationError :: "string \<Rightarrow> sys \<Rightarrow> sys" where
  "handleGenerationError e s =
    setGenerationState ((generationState s)\<lparr>status := Error, error := Some e\<rparr>) s"

definition resetGeneration :: "sys \<Rightarrow> sys" where
  "resetGeneration s =
    (setGenerationState \<lparr>id' = None, status = Idle, progress = 0, result = None, error = None\<rparr> s)
      \<lparr>uploadedImage := None\<rparr>"

text \<open>
  \<open>handleImageUpload\<close> up to its first \<open>await\<close>: the image is stored, the status
  becomes uploading, and the rest of the call is suspended.
\<close>

definition handleImageUpload :: "string \<Rightarrow> string \<Rightarrow> sys \<Rightarrow> sys" where
  "handleImageUpload imageData character s =
    (let s1 = s\<lparr>uploadedImage := Some imageData\<rparr>;
         s2 = setGenerationState ((generationState s1)\<lparr>status := Uploading\<rparr>) s1
     in s2\<lparr>uploads := uploads s2 @ [Upload imageData character AwaitBlob]\<rparr>)"

text \<open>The \<open>catch\<close> branch of \<open>handleImageUpload\<close>.\<close>

definition uploadFailed :: "sys \<Rightarrow> sys" where
  "uploadFailed s =
    setGenerationState ((generationState s)\<lparr>status := Error, error := Some ''Failed to start generation''\<rparr>) s"

definition formData :: "string \<Rightarrow> string \<Rightarrow> (string \<times> part) list" where
  "formData blob character =
    [(''photo'', Blob blob ''photo.jpg''),
     (''character'', Text character),
     (''style'', Text ''anime''),
     (''quality'', Text ''high'')]"

text \<open>
  The data URL has been fetched and turned into a blob (\<open>ok\<close>), or that failed. On
  success the form is built and the POST to \<open>/generate-cosplay\<close> is issued.
\<close>

definition blobDone :: "nat \<Rightarrow> bool \<Rightarrow> sys \<Rightarrow> sys" where
  "blobDone i ok s =
    (if i < length (uploads s) then
       (case uploads s ! i of
          Upload imageData character AwaitBlob \<Rightarrow>
            if ok then
              s\<lparr>uploads := (uploads s)[i := Upload imageData character AwaitPost],
                requests := requests s @ [PostGenerate (formData imageData character)]\<rparr>
            else uploadFailed (s\<lparr>uploads := remove_nth i (uploads s)\<rparr>)
        | Upload imageData character AwaitPost \<Rightarrow> s)
     else s)"

text \<open>
  What the POST can yield: the fetch rejects, the response is not ok, the body is not
  JSON, or the body is read and \<open>result.generation_id\<close> is a string or missing.
\<close>

datatype post_reply =
    PostRejected
  | PostNotOk
  | PostBadJson
  | PostData "string option"

definition postDone :: "nat \<Rightarrow> post_reply \<Rightarrow> sys \<Rightarrow> sys" where
  "postDone i reply s =
    (if i < length (uploads s) then
       (case uploads s ! i of
          Upload imageData character AwaitPost \<Rightarrow>
            (let s1 = s\<lparr>uploads := remove_nth i (uploads s)\<rparr>
             in case reply of
                  PostData generation_id \<Rightarrow> handleGenerationStart generation_id s1
                | _ \<Rightarrow> uploadFailed s1)
        | Upload imageData character AwaitBlob \<Rightarrow> s)
     else s)"

subsection \<open>PhotoUpload.tsx: the handlers\<close>

definition setError :: "string option \<Rightarrow> sys \<Rightarrow> sys" where
  "setError e s = s\<lparr>photoUpload := (photoUpload s)\<lparr>upload_error := e\<rparr>\<rparr>"

text \<open>
  \<open>handleFiles\<close>: the type is checked first, then the size. A file that passes starts a
  FileReader, whose \<open>onload\<close> closure holds the \<open>onImageUpload\<close> of the current render,
  and with it the current \<open>selectedCharacter\<close>.
\<close>

definition handleFiles :: "File list option \<Rightarrow> sys \<Rightarrow> sys" where
  "handleFiles files s =
    (case files of
       None \<Rightarrow> s
     | Some [] \<Rightarrow> s
     | Some (file # rest) \<Rightarrow>
         if \<not> startsWith (file_type file) ''image/'' then
           setError (Some ''Please upload an image file (JPEG, PNG, WebP)'') s
         else if file_size file > 10 * 1024 * 1024 then
           setError (Some ''File size must be less than 10MB'') s
         else
           (let s1 = setError None s
            in s1\<lparr>readers := readers s1 @ [(dataURL file, selectedCharacter s1)]\<rparr>))"

text \<open>The \<open>disabled\<close> prop that \<open>App\<close> passes to \<open>PhotoUpload\<close> and \<open>CharacterSelection\<close>.\<close>

definition disabled :: "sys \<Rightarrow> bool" where
  "disabled s = (status (generationState s) = Processing)"

definition setDragActive :: "bool \<Rightarrow> sys \<Rightarrow> sys" where
  "setDragActive b s = s\<lparr>photoUpload := (photoUpload s)\<lparr>dragActive := b\<rparr>\<rparr>"

datatype drag = DragEnter | DragOver | DragLeave

definition handleDrag :: "drag \<Rightarrow> sys \<Rightarrow> sys" where
  "handleDrag d s = (if d = DragEnter \<or> d = DragOver then setDragActive True s else setDragActive False s)"

definition handleDrop :: "File list option \<Rightarrow> sys \<Rightarrow> sys" where
  "handleDrop files s =
    (let s1 = setDragActive False s
     in if disabled s1 then s1 else handleFiles files s1)"

definition handleChange :: "File list option \<Rightarrow> sys \<Rightarrow> sys" where
  "handleChange files s = (if disabled s then s else handleFiles files s)"

text \<open>The \<open>onload\<close> of the \<open>i\<close>-th pending FileReader.\<close>

definition readerLoad :: "nat \<Rightarrow> sys \<Rightarrow> sys" where
  "readerLoad i s =
    (if i < length (readers s) then
       (case readers s ! i of
          (res, character) \<Rightarrow>
            handleImageUpload res character
              (s\<lparr>readers := remove_nth i (readers s),
                 photoUpload := (photoUpload s)\<lparr>preview := Some res\<rparr>\<rparr>))
     else s)"

text \<open>
  \<open>handleClick\<close> only opens the file dialog; the file chosen there arrives through
  \<open>handleChange\<close>.

  A click on a character button of \<open>CharacterSelection\<close> calls \<open>setSelectedCharacter\<close>,
  and \<open>App\<close> renders again when the value is new. The buttons that call
  \<open>resetGeneration\<close>: \<open>ResultDisplay\<close> is rendered when the status is completed and
  \<open>result\<close> is truthy, "Try Again" when the status is error.
\<close>

definition selectCharacter :: "string \<Rightarrow> sys \<Rightarrow> sys" where
  "selectCharacter c s =
    (if disabled s \<or> c = selectedCharacter s then s
     else render (status (generationState s)) (s\<lparr>selectedCharacter := c\<rparr>))"

definition canReset :: "sys \<Rightarrow> bool" where
  "canReset s =
    ((status (generationState s) = Completed \<and> truthy (result (generationState s)))
     \<or> status (generationState s) = Error)"

definition clickReset :: "sys \<Rightarrow> sys" where
  "clickReset s = (if canReset s then resetGeneration s else s)"

subsection \<open>GenerationProgress.tsx: timers and poll responses\<close>

text \<open>
  Time is a simulated clock in milliseconds. A timer fires at the time it is due, and
  only when no other running timer is due earlier; two timers due at the same time fire
  in either order. Between timers the clock can move by any delay that does not pass a
  due time.
\<close>

definition option_list :: "'a option \<Rightarrow> 'a list" where
  "option_list v = (case v of None \<Rightarrow> [] | Some x \<Rightarrow> [x])"

definition dues :: "sys \<Rightarrow> nat list" where
  "dues s =
    (case generationProgress s of
       None \<Rightarrow> []
     | Some g \<Rightarrow> option_list (interval g) @ option_list (pollInterval g) @ option_list (timeout g))"

definition is_next :: "nat \<Rightarrow> sys \<Rightarrow> bool" where
  "is_next d s = list_all (\<lambda>d'. d \<le> d') (dues s)"

definition delay :: "nat \<Rightarrow> sys \<Rightarrow> sys" where
  "delay d s = s\<lparr>now := fold min (dues s) (now s + d)\<rparr>"

text \<open>
  The animation interval: \<open>setCurrentProgress(prev => ...)\<close>, where \<open>r\<close> is the value
  of \<open>Math.random()\<close>. At 90 or more the interval clears itself.
\<close>

definition progressTick :: "rat \<Rightarrow> sys \<Rightarrow> sys" where
  "progressTick r s =
    (case generationProgress s of
       None \<Rightarrow> s
     | Some g \<Rightarrow>
        (case interval g of
           None \<Rightarrow> s
         | Some d \<Rightarrow>
            if is_next d s then
              (let g1 = g\<lparr>interval := Some (d + 1000)\<rparr>;
                   g2 = (if currentProgress g1 \<ge> 90 then g1\<lparr>interval := None\<rparr>
                         else g1\<lparr>currentProgress := currentProgress g1 + r * 10\<rparr>)
               in s\<lparr>now := d, generationProgress := Some g2\<rparr>)
            else s))"

text \<open>
  The poll interval: the callback issues \<open>fetch('/generation/' + generationId)\<close> and
  is suspended at the \<open>await\<close> until the response arrives.
\<close>

definition pollTick :: "sys \<Rightarrow> sys" where
  "pollTick s =
    (case generationProgress s of
       None \<Rightarrow> s
     | Some g \<Rightarrow>
        (case pollInterval g of
           None \<Rightarrow> s
         | Some d \<Rightarrow>
            if is_next d s then
              (case id' (generationState s) of
                 None \<Rightarrow> s
               | Some generationId \<Rightarrow>
                   s\<lparr>now := d,
                     generationProgress := Some (g\<lparr>pollInterval := Some (d + 2000)\<rparr>),
                     requests := requests s @ [GetGeneration generationId],
                     polls := polls s @ [generationId]\<rparr>)
            else s))"

text \<open>The timeout: \<open>clearInterval(pollInterval)\<close>, then \<open>onError\<close>.\<close>

definition timeoutFires :: "sys \<Rightarrow> sys" where
  "timeoutFires s =
    (case generationProgress s of
       None \<Rightarrow> s
     | Some g \<Rightarrow>
        (case timeout g of
           None \<Rightarrow> s
         | Some d \<Rightarrow>
            if is_next d s then
              handleGenerationError ''Generation timed out. Please try again.''
                (s\<lparr>now := d, generationProgress := Some (g\<lparr>timeout := None, pollInterval := None\<rparr>)\<rparr>)
            else s))"

text \<open>
  What a status query can yield: the fetch rejects, the response is not ok, the body is
  not JSON, or the body is read, with \<open>data.status\<close> and \<open>data.result_url\<close>.
\<close>

datatype poll_reply =
    PollRejected
  | PollNotOk
  | PollBadJson
  | PollData string "string option"

definition setCurrentProgress :: "rat \<Rightarrow> sys \<Rightarrow> sys" where
  "setCurrentProgress v s =
    s\<lparr>generationProgress := map_option (\<lambda>g. g\<lparr>currentProgress := v\<rparr>) (generationProgress s)\<rparr>"

definition setStatusMessage :: "string \<Rightarrow> sys \<Rightarrow> sys" where
  "setStatusMessage m s =
    s\<lparr>generationProgress := map_option (\<lambda>g. g\<lparr>statusMessage := m\<rparr>) (generationProgress s)\<rparr>"

definition clearPollInterval :: "sys \<Rightarrow> sys" where
  "clearPollInterval s =
    s\<lparr>generationProgress := map_option (\<lambda>g. g\<lparr>pollInterval := None\<rparr>) (generationProgress s)\<rparr>"

text \<open>\<open>data.result_url || 'https://via.placeholder.com/...'\<close>\<close>

definition resultOrPlaceholder :: "string option \<Rightarrow> string" where
  "resultOrPlaceholder url =
    (case url of
       None \<Rightarrow> ''https://via.placeholder.com/512x512/3b82f6/ffffff?text=Cosplay+Image''
     | Some u \<Rightarrow>
        if u \<noteq> [] then u
        else ''https://via.placeholder.com/512x512/3b82f6/ffffff?text=Cosplay+Image'')"

text \<open>
  The rest of the poll callback, run when the response of the \<open>i\<close>-th query in flight
  arrives. Nothing in the source ties the callback to the component or the effect that
  issued the query: it runs whatever has happened since. The \<open>try\<close>/\<open>catch\<close> swallows
  a rejected fetch, a response that is not ok and a body that is not JSON.
\<close>

definition pollDone :: "nat \<Rightarrow> poll_reply \<Rightarrow> sys \<Rightarrow> sys" where
  "pollDone i reply s =
    (if i < length (polls s) then
       (let s1 = s\<lparr>polls := remove_nth i (polls s)\<rparr>
        in case reply of
             PollData st url \<Rightarrow>
               if st = ''completed'' then
                 clearPollInterval
                   (handleGenerationComplete (resultOrPlaceholder url)
                     (setStatusMessage ''Generation complete!'' (setCurrentProgress 100 s1)))
               else if st = ''failed'' then
                 clearPollInterval (handleGenerationError ''Generation failed. Please try again.'' s1)
               else s1
           | _ \<Rightarrow> s1)
     else s)"

subsection \<open>Events and runs\<close>

datatype event =
    Drag drag
  | Drop "File list option"
  | Change "File list option"
  | ReaderLoad nat
  | BlobDone nat bool
  | PostDone nat post_reply
  | SelectCharacter string
  | ClickReset
  | Delay nat
  | ProgressTick rat
  | PollTick
  | TimeoutFires
  | PollDone nat poll_reply

text \<open>\<open>Math.random()\<close> is at least 0 and less than 1; a tick with another value is no event.\<close>

fun step :: "event \<Rightarrow> sys \<Rightarrow> sys" where
  "step (Drag d) s = handleDrag d s"
| "step (Drop files) s = handleDrop files s"
| "step (Change files) s = handleChange files s"
| "step (ReaderLoad i) s = readerLoad i s"
| "step (BlobDone i ok) s = blobDone i ok s"
| "step (PostDone i reply) s = postDone i reply s"
| "step (SelectCharacter c) s = selectCharacter c s"
| "step ClickReset s = clickReset s"
| "step (Delay d) s = delay d s"
| "step (ProgressTick r) s = (if 0 \<le> r \<and> r < 1 then progressTick r s else s)"
| "step PollTick s = pollTick s"
| "step TimeoutFires s = timeoutFires s"
| "step (PollDone i reply) s = pollDone i reply s"

definition run :: "event list \<Rightarrow> sys \<Rightarrow> sys" where
  "run es s = fold step es s"

subsection \<open>Observations on requests\<close>

text \<open>\<open>FormData.get\<close>: the first value appended under a key, for a POST; nothing for a GET.\<close>

fun field :: "string \<Rightarrow> request \<Rightarrow> part option" where
  "field k (PostGenerate form) = map_of form k"
| "field k (GetGeneration generationId) = None"

fun is_submission :: "request \<Rightarrow> bool" where
  "is_submission (PostGenerate form) = True"
| "is_submission (GetGeneration generationId) = False"

definition fixed_tags :: "request \<Rightarrow> bool" where
  "fixed_tags r = (is_submission r \<longrightarrow>
     field ''style'' r = Some (Text ''anime'') \<and> field ''quality'' r = Some (Text ''high''))"

subsection \<open>Concrete inputs\<close>

definition jpeg5 :: File where
  "jpeg5 = \<lparr>file_type = ''image/jpeg'', file_size = 5242880,
             dataURL = ''data:image/jpeg;base64,AAAA''\<rparr>"

definition png12 :: File where
  "png12 = \<lparr>file_type = ''image/png'', file_size = 12582912,
             dataURL = ''data:image/png;base64,BBBB''\<rparr>"

definition pdf12 :: File where
  "pdf12 = \<lparr>file_type = ''application/pdf'', file_size = 12582912,
             dataURL = ''data:application/pdf;base64,CCCC''\<rparr>"

text \<open>A photo is dropped, read and posted; the second time after choosing another character.\<close>

definition submit_default :: "event list" where
  "submit_default = [Drop (Some [jpeg5]), ReaderLoad 0, BlobDone 0 True]"

definition submit_zelda :: "event list" where
  "submit_zelda = [SelectCharacter ''zelda'', Drop (Some [jpeg5]), ReaderLoad 0, BlobDone 0 True]"

text \<open>
  The photo is submitted and accepted as job \<open>abc123\<close>; the first status query is
  answered with "completed" resp. "failed". Then the same, with a new photo dropped and
  read after the completion, without a reset in between.
\<close>

definition accepted :: "event list" where
  "accepted = submit_default @ [PostDone 0 (PostData (Some ''abc123''))]"

definition happy_path :: "event list" where
  "happy_path = accepted @
     [ProgressTick 0, PollTick, PollDone 0 (PollData ''completed'' (Some ''img://abc123''))]"

definition provider_failure :: "event list" where
  "provider_failure = accepted @
     [ProgressTick 0, PollTick, PollDone 0 (PollData ''failed'' None)]"

definition resubmit_after_completion :: "event list" where
  "resubmit_after_completion = happy_path @ [Drop (Some [jpeg5]), ReaderLoad 0]"

text \<open>
  Two status queries are in flight when the first is answered with "failed"; the user
  clicks "Try Again", and the answer to the second query is still to come.
\<close>

definition cancelled_by_reset :: "event list" where
  "cancelled_by_reset = accepted @
     [ProgressTick 0, PollTick, ProgressTick 0, ProgressTick 0, PollTick,
      PollDone 0 (PollData ''failed'' None), ClickReset]"

text \<open>
  A second photo is dropped while the first POST is still in flight; both POSTs are
  accepted, the first as \<open>job-1\<close>, the second as \<open>job-2\<close>.
\<close>

definition png1 :: File where
  "png1 = \<lparr>file_type = ''image/png'', file_size = 1048576,
            dataURL = ''data:image/png;base64,DDDD''\<rparr>"

definition second_submit :: "event list" where
  "second_submit = submit_default @ [Drop (Some [png1]), ReaderLoad 0, BlobDone 1 True]"

definition double_submit :: "event list" where
  "double_submit = second_submit @
     [PostDone 0 (PostData (Some ''job-1'')), PostDone 0 (PostData (Some ''job-2''))]"

text \<open>
  The job is accepted and polled: the first status query is in flight, the clock is at
  3000 ms, and the animation and the poll interval are both due at 4000 ms.
\<close>

definition query_in_flight :: "event list" where
  "query_in_flight = accepted @ [ProgressTick 0, PollTick, ProgressTick 0, ProgressTick 0]"

text \<open>
  After the completed generation a new photo is submitted without a reset, and its POST
  is in flight. And: two photos are dropped one after the other on the idle
  application; the first is read, posted and accepted, the animation ticks once, and the
  second FileReader has not finished yet.
\<close>

definition resubmit_posted :: "event list" where
  "resubmit_posted = resubmit_after_completion @ [BlobDone 0 True]"

definition late_reader :: "event list" where
  "late_reader =
     [Drop (Some [jpeg5]), Drop (Some [png1]), ReaderLoad 0, BlobDone 0 True,
      PostDone 0 (PostData (Some ''abc123'')), ProgressTick (1 / 2)]"

subsection \<open>Predicates on states\<close>

text \<open>The error messages the application can put into the generation state.\<close>

definition messages :: "string set" where
  "messages = {''Failed to start generation'', ''Generation failed. Please try again.'',
               ''Generation timed out. Please try again.''}"

definition outcome_present :: "GenerationState \<Rightarrow> bool" where
  "outcome_present gs =
    ((status gs = Completed \<longrightarrow> truthy (result gs)) \<and> (status gs = Error \<longrightarrow> truthy (error gs)))"

text \<open>No timer of the progress component is running.\<close>

definition released :: "sys \<Rightarrow> bool" where
  "released s =
    (case generationProgress s of
       None \<Rightarrow> True
     | Some g \<Rightarrow> interval g = None \<and> pollInterval g = None \<and> timeout g = None)"

text \<open>
  The progress component exists exactly while the status is uploading or processing,
  and its timers run only while the status is processing.
\<close>

definition scoped :: "sys \<Rightarrow> bool" where
  "scoped s =
    ((generationProgress s = None) = (\<not> shown (status (generationState s)))
     \<and> (status (generationState s) \<noteq> Processing \<longrightarrow> released s))"

subsection \<open>The poller under a simulated clock\<close>

text \<open>
  A reply to a status query is terminal when it carries the status "completed" or
  "failed", and transient when the query itself failed.
\<close>

fun terminal :: "poll_reply \<Rightarrow> bool" where
  "terminal (PollData st url) = (st = ''completed'' \<or> st = ''failed'')"
| "terminal PollRejected = False"
| "terminal PollNotOk = False"
| "terminal PollBadJson = False"

fun transient :: "poll_reply \<Rightarrow> bool" where
  "transient (PollData st url) = False"
| "transient PollRejected = True"
| "transient PollNotOk = True"
| "transient PollBadJson = True"

text \<open>
  The events that happen without the user and without a terminal answer: the clock
  moves, timers fire, status queries are answered with something that is not terminal.
  In \<open>swallowed\<close> every answer is a failed query.
\<close>

fun quiet :: "event \<Rightarrow> bool" where
  "quiet (Delay d) = True"
| "quiet (ProgressTick r) = True"
| "quiet PollTick = True"
| "quiet TimeoutFires = True"
| "quiet (PollDone i reply) = (\<not> terminal reply)"
| "quiet (Drag d) = False"
| "quiet (Drop files) = False"
| "quiet (Change files) = False"
| "quiet (ReaderLoad i) = False"
| "quiet (BlobDone i ok) = False"
| "quiet (PostDone i reply) = False"
| "quiet (SelectCharacter c) = False"
| "quiet ClickReset = False"

fun swallowed :: "event \<Rightarrow> bool" where
  "swallowed (Delay d) = True"
| "swallowed (ProgressTick r) = True"
| "swallowed PollTick = True"
| "swallowed TimeoutFires = True"
| "swallowed (PollDone i reply) = transient reply"
| "swallowed (Drag d) = False"
| "swallowed (Drop files) = False"
| "swallowed (Change files) = False"
| "swallowed (ReaderLoad i) = False"
| "swallowed (BlobDone i ok) = False"
| "swallowed (PostDone i reply) = False"
| "swallowed (SelectCharacter c) = False"
| "swallowed ClickReset = False"

text \<open>
  The poller is running with its timeout due at \<open>D\<close>: the status is processing, there
  is a generation id, the clock has not passed \<open>D\<close>, the timeout is set for \<open>D\<close> and
  the poll interval is running.
\<close>

definition polling :: "nat \<Rightarrow> sys \<Rightarrow> bool" where
  "polling D s =
    (status (generationState s) = Processing \<and> truthy (id' (generationState s)) \<and> now s \<le> D
     \<and> (case generationProgress s of
          None \<Rightarrow> False
        | Some g \<Rightarrow>
            timeout g = Some D \<and> pollInterval g \<noteq> None))"

text \<open>
  The request has ended by the timeout that was due at \<open>D\<close>: the status is error with
  the timeout message, the progress component is gone, the clock is at \<open>D\<close> or later.
\<close>

definition timed_out :: "nat \<Rightarrow> sys \<Rightarrow> bool" where
  "timed_out D s =
    (status (generationState s) = Error
     \<and> error (generationState s) = Some ''Generation timed out. Please try again.''
     \<and> generationProgress s = None
     \<and> D \<le> now s)"

text \<open>
  The simulated clock: the timer that is due next fires, the animation interval before
  the poll interval before the timeout when several are due at once; \<open>elapse\<close> does so
  once for each value of \<open>Math.random()\<close> it is given, and no status query is answered
  meanwhile.
\<close>

definition due_now :: "nat option \<Rightarrow> sys \<Rightarrow> bool" where
  "due_now t s = (case t of None \<Rightarrow> False | Some d \<Rightarrow> is_next d s)"

definition next_timer :: "rat \<Rightarrow> sys \<Rightarrow> event" where
  "next_timer r s =
    (case generationProgress s of
       None \<Rightarrow> TimeoutFires
     | Some g \<Rightarrow>
         if due_now (interval g) s then ProgressTick r
         else if due_now (pollInterval g) s then PollTick
         else TimeoutFires)"

fun elapse :: "rat list \<Rightarrow> sys \<Rightarrow> sys" where
  "elapse [] s = s"
| "elapse (r # rs) s = elapse rs (step (next_timer r s) s)"

text \<open>The milliseconds of timer periods that fit before the timeout due at \<open>D\<close>.\<close>

definition remaining :: "nat \<Rightarrow> sys \<Rightarrow> nat" where
  "remaining D s =
    (case generationProgress s of
       None \<Rightarrow> 0
     | Some g \<Rightarrow>
         (case interval g of None \<Rightarrow> 0 | Some i \<Rightarrow> D + 1000 - i)
         + (case pollInterval g of None \<Rightarrow> 0 | Some p \<Rightarrow> D + 2000 - p))"

definition poll_due :: "sys \<Rightarrow> bool" where
  "poll_due s = (case generationProgress s of None \<Rightarrow> False | Some g \<Rightarrow> due_now (pollInterval g) s)"

definition unit_interval :: "rat \<Rightarrow> bool" where
  "unit_interval r = (0 \<le> r \<and> r < 1)"

text \<open>The animated progress of the mounted component lies between 0 and 100.\<close>

definition animation_bounded :: "sys \<Rightarrow> bool" where
  "animation_bounded s =
    (case generationProgress s of
       None \<Rightarrow> True
     | Some g \<Rightarrow> 0 \<le> currentProgress g \<and> currentProgress g \<le> 100)"

text \<open>The \<open>progress\<close> of the generation state is at most 100, and 100 when completed.\<close>

definition progress_bounded :: "GenerationState \<Rightarrow> bool" where
  "progress_bounded gs = (progress gs \<le> 100 \<and> (status gs = Completed \<longrightarrow> progress gs = 100))"

text \<open>
  No running timer is due before the clock, and the poll interval runs only for a
  generation id.
\<close>

definition timers_sound :: "sys \<Rightarrow> bool" where
  "timers_sound s =
    (list_all (\<lambda>d. now s \<le> d) (dues s)
     \<and> (case generationProgress s of
          None \<Rightarrow> True
        | Some g \<Rightarrow> pollInterval g = None \<or> truthy (id' (generationState s))))"

section \<open>Properties\<close>

subsection \<open>What each handler leaves alone\<close>

lemma setGenerationState_frame [simp]:
  "requests (setGenerationState gs s) = requests s"
  "readers (setGenerationState gs s) = readers s"
  "uploads (setGenerationState gs s) = uploads s"
  "polls (setGenerationState gs s) = polls s"
  "now (setGenerationState gs s) = now s"
  "photoUpload (setGenerationState gs s) = photoUpload s"
  "selectedCharacter (setGenerationState gs s) = selectedCharacter s"
  "uploadedImage (setGenerationState gs s) = uploadedImage s"
  "generationState (setGenerationState gs s) = gs"
  by (simp_all add: setGenerationState_def render_def)

lemma render_frame [simp]:
  "requests (render old s) = requests s"
  "readers (render old s) = readers s"
  "uploads (render old s) = uploads s"
  "polls (render old s) = polls s"
  "now (render old s) = now s"
  "photoUpload (render old s) = photoUpload s"
  "selectedCharacter (render old s) = selectedCharacter s"
  "uploadedImage (render old s) = uploadedImage s"
  "generationState (render old s) = generationState s"
  by (simp_all add: render_def)

lemmas app_handlers = handleGenerationStart_def handleGenerationComplete_def
  handleGenerationError_def resetGeneration_def handleImageUpload_def uploadFailed_def

lemmas upload_handlers = handleFiles_def handleDrop_def handleChange_def handleDrag_def
  setDragActive_def setError_def readerLoad_def selectCharacter_def clickReset_def

lemmas progress_helpers = setCurrentProgress_def setStatusMessage_def clearPollInterval_def

lemmas render_defs = setGenerationState_def render_def rerender_def shown_def progressEffect_def
  progressCleanup_def pollEffect_def pollCleanup_def mounted_def truthy_def

lemmas timer_defs = progressTick_def pollTick_def timeoutFires_def delay_def is_next_def
  dues_def option_list_def

lemmas async_defs = blobDone_def postDone_def pollDone_def remove_nth_def formData_def
  resultOrPlaceholder_def

lemmas inputs = jpeg5_def png12_def pdf12_def initialState_def startsWith_def disabled_def

subsection \<open>The catalog fallback\<close>


subsection \<open>Validation of the dropped file\<close>

text \<open>
  C7, as stated, fails: a file larger than 10 MiB whose type is not an image type is
  rejected for its type, not for its size, because \<open>handleFiles\<close> checks the type first.
\<close>

theorem large_non_image_counterexample:
  "10 * 1024 * 1024 < file_size pdf12
   \<and> upload_error (photoUpload (handleFiles (Some [pdf12]) initialState))
       = Some ''Please upload an image file (JPEG, PNG, WebP)''"
  by (simp add: pdf12_def handleFiles_def setError_def startsWith_def initialState_def)

text \<open>
  C7, amended. A file whose declared type does not start with \<open>image/\<close> is rejected with
  the type message, whatever its size; a file of an image type with more than 10 MiB is
  rejected with the size message; a file of an image type with at most 10 MiB passes:
  the error is cleared and the file is read.
\<close>

theorem handleFiles_validation:
  "(\<not> startsWith (file_type file) ''image/'' \<longrightarrow>
      handleFiles (Some (file # rest)) s = setError (Some ''Please upload an image file (JPEG, PNG, WebP)'') s)
   \<and> (startsWith (file_type file) ''image/'' \<and> 10 * 1024 * 1024 < file_size file \<longrightarrow>
      handleFiles (Some (file # rest)) s = setError (Some ''File size must be less than 10MB'') s)
   \<and> (startsWith (file_type file) ''image/'' \<and> file_size file \<le> 10 * 1024 * 1024 \<longrightarrow>
      upload_error (photoUpload (handleFiles (Some (file # rest)) s)) = None
      \<and> readers (handleFiles (Some (file # rest)) s) = readers s @ [(dataURL file, selectedCharacter s)])"
  by (simp add: handleFiles_def setError_def Let_def)

text \<open>C7, amended: the three cases at a PDF of 12 MiB, a PNG of 12 MiB and a JPEG of 5 MiB.\<close>

theorem handleFiles_validation_witness:
  "\<not> startsWith (file_type pdf12) ''image/''
   \<and> handleFiles (Some [pdf12]) initialState
       = setError (Some ''Please upload an image file (JPEG, PNG, WebP)'') initialState
   \<and> startsWith (file_type png12) ''image/'' \<and> 10 * 1024 * 1024 < file_size png12
   \<and> handleFiles (Some [png12]) initialState
       = setError (Some ''File size must be less than 10MB'') initialState
   \<and> startsWith (file_type jpeg5) ''image/'' \<and> file_size jpeg5 \<le> 10 * 1024 * 1024
   \<and> upload_error (photoUpload (handleFiles (Some [jpeg5]) initialState)) = None
   \<and> readers (handleFiles (Some [jpeg5]) initialState) = [(dataURL jpeg5, ''sailor-moon'')]"
proof -
  have types: "\<not> startsWith (file_type pdf12) ''image/''"
    "startsWith (file_type png12) ''image/''" "startsWith (file_type jpeg5) ''image/''"
    by (simp_all add: inputs)
  have sizes: "10 * 1024 * 1024 < file_size png12" "file_size jpeg5 \<le> 10 * 1024 * 1024"
    by (simp_all add: inputs)
  have start: "readers initialState = []" "selectedCharacter initialState = ''sailor-moon''"
    by (simp_all add: initialState_def)
  show ?thesis
    using handleFiles_validation [of pdf12 "[]" initialState]
      handleFiles_validation [of png12 "[]" initialState]
      handleFiles_validation [of jpeg5 "[]" initialState]
      types sizes start
    by simp
qed

subsection \<open>A file that fails validation\<close>

text \<open>
  C1, as stated, fails: dropping a PNG of 12 MiB on the idle application leaves the
  generation state idle and without an error; the orchestrator is never told.
\<close>

theorem oversize_png_counterexample:
  "status (generationState (step (Drop (Some [png12])) initialState)) = Idle
   \<and> error (generationState (step (Drop (Some [png12])) initialState)) = None"
  by (simp add: png12_def initialState_def upload_handlers disabled_def startsWith_def)

text \<open>
  C1, amended. For every file that fails validation, dropping or choosing it makes no
  transition of the generation state at all: the state, the progress component, the
  requests issued so far and all pending work are unchanged, so no network call is made
  now or later on its behalf; when the upload is enabled, the validation error is kept in
  the upload component's own error state.
\<close>

theorem invalid_file_no_submission:
  assumes "\<not> startsWith (file_type file) ''image/'' \<or> 10 * 1024 * 1024 < file_size file"
    and "e = Drop (Some (file # rest)) \<or> e = Change (Some (file # rest))"
  shows "generationState (step e s) = generationState s
    \<and> requests (step e s) = requests s
    \<and> readers (step e s) = readers s
    \<and> uploads (step e s) = uploads s
    \<and> polls (step e s) = polls s
    \<and> generationProgress (step e s) = generationProgress s
    \<and> (\<not> disabled s \<longrightarrow>
         upload_error (photoUpload (step e s)) =
           Some (if \<not> startsWith (file_type file) ''image/''
                 then ''Please upload an image file (JPEG, PNG, WebP)''
                 else ''File size must be less than 10MB''))"
  using assms by (auto simp add: upload_handlers disabled_def Let_def)

text \<open>C1, amended: at the PNG of 12 MiB, dropped on the idle application.\<close>

theorem invalid_file_no_submission_witness:
  "10 * 1024 * 1024 < file_size png12
   \<and> \<not> disabled initialState
   \<and> generationState (step (Drop (Some [png12])) initialState) = generationState initialState
   \<and> requests (step (Drop (Some [png12])) initialState) = []
   \<and> readers (step (Drop (Some [png12])) initialState) = []
   \<and> uploads (step (Drop (Some [png12])) initialState) = []
   \<and> upload_error (photoUpload (step (Drop (Some [png12])) initialState))
       = Some ''File size must be less than 10MB''"
proof -
  have big: "10 * 1024 * 1024 < file_size png12" and img: "startsWith (file_type png12) ''image/''"
    by (simp_all add: inputs)
  have idle: "\<not> disabled initialState" "requests initialState = []"
    "readers initialState = []" "uploads initialState = []"
    by (simp_all add: inputs)
  show ?thesis
    using invalid_file_no_submission [of png12 "Drop (Some [png12])" "[]" initialState]
      big img idle
    by simp
qed

subsection \<open>The fixed style and quality tags\<close>

lemma requests_step:
  "requests (step e s) = requests s
   \<or> (\<exists>blob c. requests (step e s) = requests s @ [PostGenerate (formData blob c)])
   \<or> (\<exists>g. requests (step e s) = requests s @ [GetGeneration g])"
proof (cases e)
  case (BlobDone i ok)
  then show ?thesis
    by (auto simp add: blobDone_def uploadFailed_def split: upload.splits phase.splits)
next
  case (PostDone i reply)
  then show ?thesis
    by (auto simp add: postDone_def uploadFailed_def handleGenerationStart_def Let_def
        split: upload.splits phase.splits post_reply.splits)
next
  case (PollDone i reply)
  then show ?thesis
    by (auto simp add: pollDone_def app_handlers progress_helpers Let_def split: poll_reply.splits)
next
  case (ProgressTick r)
  then show ?thesis
    by (auto simp add: progressTick_def Let_def split: option.splits)
next
  case PollTick
  then show ?thesis
    by (auto simp add: pollTick_def split: option.splits)
next
  case TimeoutFires
  then show ?thesis
    by (auto simp add: timeoutFires_def app_handlers split: option.splits)
next
  case (ReaderLoad i)
  then show ?thesis
    by (auto simp add: readerLoad_def handleImageUpload_def Let_def split: prod.splits)
qed (auto simp add: upload_handlers app_handlers delay_def Let_def split: option.splits list.splits)

lemma fixed_tags_step:
  assumes "list_all fixed_tags (requests s)"
  shows "list_all fixed_tags (requests (step e s))"
  using requests_step [of e s] assms
  by (auto simp add: fixed_tags_def formData_def)

lemma fixed_tags_run:
  "list_all fixed_tags (requests s) \<Longrightarrow> list_all fixed_tags (requests (run es s))"
  unfolding run_def
  by (induction es arbitrary: s) (simp_all add: fixed_tags_step)

text \<open>
  C10. Every POST to the provider that any run of the application issues carries
  style "anime" and quality "high", so any two submissions, of any two runs, carry the
  same style and quality, whatever character was selected.
\<close>

theorem submissions_carry_fixed_style_and_quality:
  assumes "r \<in> set (requests (run es initialState))" and "is_submission r"
    and "r' \<in> set (requests (run es' initialState))" and "is_submission r'"
  shows "field ''style'' r = Some (Text ''anime'') \<and> field ''quality'' r = Some (Text ''high'')
    \<and> field ''style'' r' = field ''style'' r \<and> field ''quality'' r' = field ''quality'' r"
proof -
  have init: "list_all fixed_tags (requests initialState)"
    by (simp add: initialState_def)
  have "fixed_tags r" and "fixed_tags r'"
    using fixed_tags_run [OF init, of es] fixed_tags_run [OF init, of es'] assms(1,3)
    by (simp_all add: list_all_iff)
  then show ?thesis
    using assms(2,4) by (simp add: fixed_tags_def)
qed

text \<open>
  C10: at two runs that submit the same photo, the first with the initial character,
  the second after selecting another one.
\<close>

theorem submissions_carry_fixed_style_and_quality_witness:
  "PostGenerate (formData (dataURL jpeg5) ''sailor-moon'') \<in> set (requests (run submit_default initialState))
   \<and> is_submission (PostGenerate (formData (dataURL jpeg5) ''sailor-moon''))
   \<and> PostGenerate (formData (dataURL jpeg5) ''zelda'') \<in> set (requests (run submit_zelda initialState))
   \<and> is_submission (PostGenerate (formData (dataURL jpeg5) ''zelda''))
   \<and> field ''character'' (PostGenerate (formData (dataURL jpeg5) ''sailor-moon''))
       \<noteq> field ''character'' (PostGenerate (formData (dataURL jpeg5) ''zelda''))
   \<and> field ''style'' (PostGenerate (formData (dataURL jpeg5) ''sailor-moon'')) = Some (Text ''anime'')
   \<and> field ''quality'' (PostGenerate (formData (dataURL jpeg5) ''sailor-moon'')) = Some (Text ''high'')
   \<and> field ''style'' (PostGenerate (formData (dataURL jpeg5) ''zelda''))
       = field ''style'' (PostGenerate (formData (dataURL jpeg5) ''sailor-moon''))
   \<and> field ''quality'' (PostGenerate (formData (dataURL jpeg5) ''zelda''))
       = field ''quality'' (PostGenerate (formData (dataURL jpeg5) ''sailor-moon''))"
proof -
  have a: "requests (run submit_default initialState) = [PostGenerate (formData (dataURL jpeg5) ''sailor-moon'')]"
    by (simp add: run_def submit_default_def inputs upload_handlers app_handlers render_defs
        blobDone_def remove_nth_def)
  have b: "requests (run submit_zelda initialState) = [PostGenerate (formData (dataURL jpeg5) ''zelda'')]"
    by (simp add: run_def submit_zelda_def inputs upload_handlers app_handlers render_defs
        blobDone_def remove_nth_def)
  have c: "field ''character'' (PostGenerate (formData (dataURL jpeg5) ''sailor-moon''))
       \<noteq> field ''character'' (PostGenerate (formData (dataURL jpeg5) ''zelda''))"
    by (simp add: formData_def)
  show ?thesis
    using submissions_carry_fixed_style_and_quality
      [of "PostGenerate (formData (dataURL jpeg5) ''sailor-moon'')" submit_default
          "PostGenerate (formData (dataURL jpeg5) ''zelda'')" submit_zelda] a b c
    by simp
qed

subsection \<open>The generation state after each event\<close>

lemma generationState_step:
  "generationState (step e s) = generationState s
   \<or> generationState (step e s) = (generationState s)\<lparr>status := Uploading\<rparr>
   \<or> (\<exists>g. generationState (step e s) = (generationState s)\<lparr>id' := g, status := Processing, progress := 0\<rparr>)
   \<or> (\<exists>u. generationState (step e s) =
          (generationState s)\<lparr>status := Completed, progress := 100, result := Some (resultOrPlaceholder u)\<rparr>)
   \<or> (\<exists>m \<in> messages. generationState (step e s) = (generationState s)\<lparr>status := Error, error := Some m\<rparr>)
   \<or> generationState (step e s) = \<lparr>id' = None, status = Idle, progress = 0, result = None, error = None\<rparr>"
proof (cases e)
  case (BlobDone i ok)
  then show ?thesis
    by (auto simp add: blobDone_def uploadFailed_def messages_def split: upload.splits phase.splits)
next
  case (PostDone i reply)
  then show ?thesis
    by (auto simp add: postDone_def uploadFailed_def handleGenerationStart_def Let_def messages_def
        split: upload.splits phase.splits post_reply.splits)
next
  case (PollDone i reply)
  then show ?thesis
    by (auto simp add: pollDone_def app_handlers progress_helpers Let_def messages_def split: poll_reply.splits)
next
  case (ProgressTick r)
  then show ?thesis
    by (auto simp add: progressTick_def Let_def split: option.splits)
next
  case PollTick
  then show ?thesis
    by (auto simp add: pollTick_def split: option.splits)
next
  case TimeoutFires
  then show ?thesis
    by (auto simp add: timeoutFires_def app_handlers messages_def split: option.splits)
next
  case (ReaderLoad i)
  then show ?thesis
    by (auto simp add: readerLoad_def handleImageUpload_def Let_def split: prod.splits)
qed (auto simp add: upload_handlers app_handlers delay_def Let_def split: option.splits list.splits)

lemma truthy_resultOrPlaceholder: "truthy (Some (resultOrPlaceholder u))"
  by (simp add: truthy_def resultOrPlaceholder_def split: option.splits)

lemma outcome_present_step:
  assumes "outcome_present (generationState s)"
  shows "outcome_present (generationState (step e s))"
  using generationState_step [of e s] assms truthy_resultOrPlaceholder
  by (auto simp add: outcome_present_def messages_def truthy_def)

lemma outcome_present_run:
  "outcome_present (generationState s) \<Longrightarrow> outcome_present (generationState (run es s))"
  unfolding run_def
  by (induction es arbitrary: s) (simp_all add: outcome_present_step)

text \<open>
  C3, as stated, fails: after a completed generation a new photo can be dropped without
  a reset; the status is then uploading and the result of the old job is still there.
\<close>

theorem stale_result_counterexample:
  "status (generationState (run resubmit_after_completion initialState)) = Uploading
   \<and> result (generationState (run resubmit_after_completion initialState)) = Some ''img://abc123''"
  by (simp add: run_def resubmit_after_completion_def happy_path_def accepted_def submit_default_def
      inputs upload_handlers app_handlers render_defs async_defs timer_defs progress_helpers)

text \<open>
  C3, amended. In every reachable state, if the status is completed then the result is
  present and non-empty, and if the status is error (the only failure status of the
  code, which a timeout shares) then the error is present and non-empty. The converse
  is not claimed: result and error are kept until a reset.
\<close>

theorem terminal_status_has_its_outcome:
  "(status (generationState (run es initialState)) = Completed \<longrightarrow>
      truthy (result (generationState (run es initialState))))
   \<and> (status (generationState (run es initialState)) = Error \<longrightarrow>
      truthy (error (generationState (run es initialState))))"
proof -
  have "outcome_present (generationState initialState)"
    by (simp add: outcome_present_def initialState_def)
  then have "outcome_present (generationState (run es initialState))"
    by (rule outcome_present_run)
  then show ?thesis by (simp add: outcome_present_def)
qed

text \<open>C3, amended: at the run that ends completed and at the run that ends in error.\<close>

theorem terminal_status_has_its_outcome_witness:
  "status (generationState (run happy_path initialState)) = Completed
   \<and> truthy (result (generationState (run happy_path initialState)))
   \<and> status (generationState (run provider_failure initialState)) = Error
   \<and> truthy (error (generationState (run provider_failure initialState)))"
proof -
  have a: "status (generationState (run happy_path initialState)) = Completed"
    by (simp add: run_def happy_path_def accepted_def submit_default_def
        inputs upload_handlers app_handlers render_defs async_defs timer_defs progress_helpers)
  have b: "status (generationState (run provider_failure initialState)) = Error"
    by (simp add: run_def provider_failure_def accepted_def submit_default_def
        inputs upload_handlers app_handlers render_defs async_defs timer_defs progress_helpers)
  show ?thesis
    using terminal_status_has_its_outcome [of happy_path]
      terminal_status_has_its_outcome [of provider_failure] a b
    by simp
qed

subsection \<open>The timers of the poller\<close>

lemma scoped_setGenerationState:
  "scoped s \<Longrightarrow> scoped (setGenerationState gs s)"
  by (auto simp add: scoped_def released_def render_defs Let_def split: option.splits)

lemma scoped_step:
  assumes "scoped s"
  shows "scoped (step e s)"
proof (cases e)
  case (BlobDone i ok)
  have "scoped (s\<lparr>uploads := us\<rparr>)" for us
    using assms by (simp add: scoped_def released_def)
  then show ?thesis using BlobDone assms
    by (auto simp add: blobDone_def uploadFailed_def scoped_setGenerationState split: upload.splits phase.splits)
       (simp add: scoped_def released_def)
next
  case (PostDone i reply)
  have "scoped (s\<lparr>uploads := us\<rparr>)" for us
    using assms by (simp add: scoped_def released_def)
  then show ?thesis using PostDone assms
    by (auto simp add: postDone_def uploadFailed_def handleGenerationStart_def Let_def scoped_setGenerationState
        split: upload.splits phase.splits post_reply.splits)
next
  case (PollDone i reply)
  then show ?thesis using assms
    by (auto simp add: pollDone_def app_handlers progress_helpers Let_def scoped_def released_def render_defs
        split: poll_reply.splits option.splits)
next
  case (ProgressTick r)
  then show ?thesis using assms
    by (auto simp add: progressTick_def Let_def scoped_def released_def split: option.splits)
next
  case PollTick
  then show ?thesis using assms
    by (auto simp add: pollTick_def scoped_def released_def split: option.splits)
next
  case TimeoutFires
  then show ?thesis using assms
    by (auto simp add: timeoutFires_def app_handlers scoped_def released_def render_defs split: option.splits)
next
  case (ReaderLoad i)
  then show ?thesis using assms
    by (auto simp add: readerLoad_def handleImageUpload_def Let_def scoped_def released_def render_defs
        split: prod.splits option.splits)
next
  case ClickReset
  then show ?thesis using assms
    by (auto simp add: clickReset_def resetGeneration_def scoped_def released_def render_defs split: option.splits)
qed (use assms in \<open>auto simp add: upload_handlers delay_def Let_def scoped_def released_def render_defs split: option.splits list.splits\<close>)

lemma scoped_run: "scoped s \<Longrightarrow> scoped (run es s)"
  unfolding run_def
  by (induction es arbitrary: s) (simp_all add: scoped_step)

lemma released_no_timer:
  assumes "released s"
  shows "dues s = []" and "pollTick s = s" and "timeoutFires s = s" and "progressTick r s = s"
  using assms
  by (auto simp add: released_def timer_defs split: option.splits)

text \<open>
  C8, as stated, fails in its last part: a status query that is in flight when the
  poller is cancelled is not cancelled with it. Here the first answer "failed" stops the
  poller and the user resets; the state is idle and no timer runs; then the second
  answer arrives and the callback of the cancelled poller reports a failure.
\<close>

theorem late_response_counterexample:
  "status (generationState (run cancelled_by_reset initialState)) = Idle
   \<and> generationProgress (run cancelled_by_reset initialState) = None
   \<and> status (generationState (step (PollDone 0 (PollData ''failed'' None))
        (run cancelled_by_reset initialState))) = Error
   \<and> error (generationState (step (PollDone 0 (PollData ''failed'' None))
        (run cancelled_by_reset initialState))) = Some ''Generation failed. Please try again.''"
  by (simp add: run_def cancelled_by_reset_def accepted_def submit_default_def canReset_def
      inputs upload_handlers app_handlers render_defs async_defs timer_defs progress_helpers)

text \<open>
  C8, amended. The timers are released on every stop, cancel and reset: in every
  reachable state whose status is not processing, neither the poll interval nor the
  timeout (nor the animation interval) is running, and no timer callback can run any
  more. Whether a query already in flight still reports is left open.
\<close>

theorem timers_released_when_inactive:
  "status (generationState (run es initialState)) \<noteq> Processing \<longrightarrow>
     released (run es initialState)
     \<and> dues (run es initialState) = []
     \<and> step PollTick (run es initialState) = run es initialState
     \<and> step TimeoutFires (run es initialState) = run es initialState
     \<and> step (ProgressTick r) (run es initialState) = run es initialState"
proof -
  have "scoped initialState"
    by (simp add: scoped_def released_def shown_def initialState_def)
  then have "scoped (run es initialState)"
    by (rule scoped_run)
  then show ?thesis
    by (simp add: scoped_def released_no_timer)
qed

text \<open>C8, amended: at the run in which the provider reports a failure.\<close>

theorem timers_released_when_inactive_witness:
  "status (generationState (run provider_failure initialState)) \<noteq> Processing
   \<and> released (run provider_failure initialState)
   \<and> dues (run provider_failure initialState) = []
   \<and> step PollTick (run provider_failure initialState) = run provider_failure initialState
   \<and> step TimeoutFires (run provider_failure initialState) = run provider_failure initialState"
proof -
  have "status (generationState (run provider_failure initialState)) = Error"
    by (simp add: run_def provider_failure_def accepted_def submit_default_def
        inputs upload_handlers app_handlers render_defs async_defs timer_defs progress_helpers)
  then show ?thesis
    using timers_released_when_inactive [of provider_failure 0] by simp
qed

subsection \<open>A submit while a request is in flight\<close>

text \<open>
  C5. The code does not do what the claim says while the status is uploading: the upload
  is disabled only while processing. After the first submit the status is uploading and
  the upload is enabled; the second photo is read and posted as well; when both POSTs
  are accepted, the id of the second job replaces the id of the first.
\<close>

theorem submit_while_uploading_overwrites:
  "status (generationState (run submit_default initialState)) = Uploading
   \<and> \<not> disabled (run submit_default initialState)
   \<and> length (filter is_submission (requests (run second_submit initialState))) = 2
   \<and> id' (generationState (run (second_submit @ [PostDone 0 (PostData (Some ''job-1''))]) initialState))
       = Some ''job-1''
   \<and> id' (generationState (run double_submit initialState)) = Some ''job-2''
   \<and> status (generationState (run double_submit initialState)) = Processing"
  by (simp add: run_def double_submit_def second_submit_def submit_default_def png1_def
      inputs upload_handlers app_handlers render_defs async_defs)

subsection \<open>The poller between its start and its timeout\<close>

lemma fold_min_le: "fold min ds (m::nat) \<le> m"
proof (induction ds arbitrary: m)
  case Nil
  show ?case by simp
next
  case (Cons a ds)
  have "fold min ds (min a m) \<le> min a m" by (rule Cons.IH)
  then show ?case by simp
qed

lemma fold_min_le_elem: "x \<in> set ds \<Longrightarrow> fold min ds (m::nat) \<le> x"
proof (induction ds arbitrary: m)
  case Nil
  then show ?case by simp
next
  case (Cons a ds)
  show ?case
  proof (cases "x = a")
    case True
    have "fold min ds (min a m) \<le> min a m" by (rule fold_min_le)
    then show ?thesis using True by simp
  next
    case False
    then have "x \<in> set ds" using Cons.prems by simp
    then show ?thesis using Cons.IH by simp
  qed
qed

lemma unmount [simp]:
  "\<not> shown (status gs) \<Longrightarrow> generationProgress (setGenerationState gs s) = None"
  by (simp add: setGenerationState_def render_def rerender_def)

lemma polling_start:
  assumes "gid \<noteq> []"
  shows "polling (now s + 300000) (handleGenerationStart (Some gid) s)"
  using assms
  by (simp add: polling_def handleGenerationStart_def render_defs Let_def split: option.splits)

lemma remaining_start:
  assumes "gid \<noteq> []" and "status (generationState s) \<noteq> Processing"
  shows "remaining (now s + 300000) (handleGenerationStart (Some gid) s) = 600000"
  using assms
  by (simp add: remaining_def handleGenerationStart_def render_defs Let_def split: option.splits)

lemma polling_elim:
  assumes "polling D s"
  obtains g p gid where "generationProgress s = Some g" and "timeout g = Some D"
    and "pollInterval g = Some p" and "id' (generationState s) = Some gid" and "gid \<noteq> []"
    and "status (generationState s) = Processing" and "now s \<le> D"
  using assms
  by (auto simp add: polling_def truthy_def split: option.splits)

lemma polling_intro:
  assumes "generationProgress s = Some g" and "timeout g = Some D"
    and "pollInterval g = Some p" and "id' (generationState s) = Some gid" and "gid \<noteq> []"
    and "status (generationState s) = Processing" and "now s \<le> D"
  shows "polling D s"
  using assms by (simp add: polling_def truthy_def)

lemma dues_polling:
  assumes "generationProgress s = Some g" and "timeout g = Some D" and "pollInterval g = Some p"
  shows "dues s = option_list (interval g) @ [p, D]"
  using assms by (simp add: dues_def option_list_def)

lemma delay_polling:
  assumes "polling D s"
  shows "polling D (delay d s)"
proof -
  from assms obtain g p gid where f: "generationProgress s = Some g" "timeout g = Some D"
    "pollInterval g = Some p"
    by (rule polling_elim)
  have "D \<in> set (dues s)"
    by (simp add: dues_polling [OF f])
  then have "fold min (dues s) (now s + d) \<le> D"
    by (rule fold_min_le_elem)
  then show ?thesis
    using assms by (simp add: polling_def delay_def)
qed

lemma progressTick_polling:
  assumes "polling D s"
  shows "polling D (progressTick r s)"
    and "due_now (interval g) s \<Longrightarrow> generationProgress s = Some g
      \<Longrightarrow> remaining D (progressTick r s) + 1000 \<le> remaining D s"
proof -
  from assms obtain g' p gid where f: "generationProgress s = Some g'" "timeout g' = Some D"
    "pollInterval g' = Some p" and a: "id' (generationState s) = Some gid" "gid \<noteq> []"
    "status (generationState s) = Processing" "now s \<le> D"
    by (rule polling_elim)
  note d = dues_polling [OF f]
  show "polling D (progressTick r s)"
  proof (cases "interval g'")
    case None
    then show ?thesis using assms f by (simp add: progressTick_def)
  next
    case (Some i)
    show ?thesis
    proof (cases "is_next i s")
      case False
      then show ?thesis using assms f Some by (simp add: progressTick_def)
    next
      case True
      then have "i \<le> D" by (simp add: is_next_def d)
      then show ?thesis
        using f a Some True by (simp add: progressTick_def polling_def truthy_def Let_def)
    qed
  qed
  show "remaining D (progressTick r s) + 1000 \<le> remaining D s"
    if h1: "due_now (interval g) s" and h2: "generationProgress s = Some g"
  proof -
    have g: "g = g'" using h2 f(1) by simp
    obtain i where i: "interval g' = Some i" "is_next i s"
      using h1 g by (auto simp add: due_now_def split: option.splits)
    then have "i \<le> D" by (simp add: is_next_def d)
    then show ?thesis
      using f i by (simp add: progressTick_def remaining_def Let_def, arith)
  qed
qed

lemma pollTick_polling:
  assumes "polling D s"
  shows "polling D (pollTick s)"
    and "due_now (pollInterval g) s \<Longrightarrow> generationProgress s = Some g
      \<Longrightarrow> remaining D (pollTick s) + 1000 \<le> remaining D s"
proof -
  from assms obtain g' p gid where f: "generationProgress s = Some g'" "timeout g' = Some D"
    "pollInterval g' = Some p" and a: "id' (generationState s) = Some gid" "gid \<noteq> []"
    "status (generationState s) = Processing" "now s \<le> D"
    by (rule polling_elim)
  note d = dues_polling [OF f]
  show "polling D (pollTick s)"
  proof (cases "is_next p s")
    case False
    then show ?thesis using assms f by (simp add: pollTick_def)
  next
    case True
    then have "p \<le> D" by (simp add: is_next_def d)
    then show ?thesis
      using f a True by (simp add: pollTick_def polling_def truthy_def)
  qed
  show "remaining D (pollTick s) + 1000 \<le> remaining D s"
    if h1: "due_now (pollInterval g) s" and h2: "generationProgress s = Some g"
  proof -
    have g: "g = g'" using h2 f(1) by simp
    have n: "is_next p s"
      using h1 g f by (simp add: due_now_def)
    then have "p \<le> D" by (simp add: is_next_def d)
    then show ?thesis
      using f a n by (simp add: pollTick_def remaining_def split: option.splits)
  qed
qed

lemma timeoutFires_polling:
  assumes "polling D s"
  shows "polling D (timeoutFires s) \<or> (timed_out D (timeoutFires s) \<and> now (timeoutFires s) = D)"
proof -
  from assms obtain g p gid where f: "generationProgress s = Some g" "timeout g = Some D"
    "pollInterval g = Some p"
    by (rule polling_elim)
  show ?thesis
  proof (cases "is_next D s")
    case False
    then show ?thesis using assms f by (simp add: timeoutFires_def)
  next
    case True
    then show ?thesis
      using f by (simp add: timeoutFires_def timed_out_def handleGenerationError_def shown_def)
  qed
qed

lemma pollDone_quiet:
  assumes "\<not> terminal reply"
  shows "pollDone i reply s = (if i < length (polls s) then s\<lparr>polls := remove_nth i (polls s)\<rparr> else s)"
  using assms by (cases reply) (simp_all add: pollDone_def Let_def)

lemma quiet_step:
  assumes "polling D s" and "quiet e"
  shows "polling D (step e s)
    \<or> (e = TimeoutFires \<and> timed_out D (step e s) \<and> now (step e s) = D)"
proof (cases e)
  case (Delay d)
  then show ?thesis using delay_polling [OF assms(1)] by simp
next
  case (ProgressTick r)
  then show ?thesis using progressTick_polling(1) [OF assms(1)] assms(1) by simp
next
  case PollTick
  then show ?thesis using pollTick_polling(1) [OF assms(1)] by simp
next
  case TimeoutFires
  then show ?thesis using timeoutFires_polling [OF assms(1)] by simp
next
  case (PollDone i reply)
  then show ?thesis using assms by (simp add: pollDone_quiet polling_def)
qed (use assms in simp_all)

lemma timed_out_step:
  assumes "timed_out D s" and "quiet e"
  shows "timed_out D (step e s)"
proof (cases e)
  case (Delay d)
  then show ?thesis using assms by (simp add: timed_out_def delay_def dues_def)
next
  case (ProgressTick r)
  then show ?thesis using assms by (simp add: timed_out_def progressTick_def)
next
  case PollTick
  then show ?thesis using assms by (simp add: timed_out_def pollTick_def)
next
  case TimeoutFires
  then show ?thesis using assms by (simp add: timed_out_def timeoutFires_def)
next
  case (PollDone i reply)
  then show ?thesis using assms by (simp add: pollDone_quiet timed_out_def)
qed (use assms in simp_all)

lemma quiet_run:
  assumes "list_all quiet es"
  shows "polling D s \<Longrightarrow> polling D (run es s) \<or> timed_out D (run es s)"
    and "timed_out D s \<Longrightarrow> timed_out D (run es s)"
  using assms unfolding run_def
proof (induction es arbitrary: s)
  case Nil
  { case 1 then show ?case by simp }
  { case 2 then show ?case by simp }
next
  case (Cons e es)
  { case 1
    then show ?case using quiet_step [of D s e] Cons.IH [of "step e s"] by auto }
  { case 2
    then show ?case using timed_out_step [of D s e] Cons.IH(2) [of "step e s"] by auto }
qed


lemma timeoutFires_due:
  assumes "polling D s" and "is_next D s"
  shows "timed_out D (timeoutFires s) \<and> now (timeoutFires s) = D"
proof -
  from assms(1) obtain g p gid where f: "generationProgress s = Some g" "timeout g = Some D"
    "pollInterval g = Some p"
    by (rule polling_elim)
  show ?thesis
    using f assms(2) by (simp add: timeoutFires_def timed_out_def handleGenerationError_def shown_def)
qed

lemma quiet_next_timer: "quiet (next_timer r s)"
  by (simp add: next_timer_def split: option.splits)

lemma next_timer_step:
  assumes "polling D s" and "unit_interval r"
  shows "(timed_out D (step (next_timer r s) s) \<and> now (step (next_timer r s) s) = D)
    \<or> (polling D (step (next_timer r s) s)
        \<and> remaining D (step (next_timer r s) s) + 1000 \<le> remaining D s)"
proof -
  from assms(1) obtain g p gid where f: "generationProgress s = Some g" "timeout g = Some D"
    "pollInterval g = Some p"
    by (rule polling_elim)
  note d = dues_polling [OF f]
  consider (progress) "due_now (interval g) s"
    | (poll) "\<not> due_now (interval g) s" "due_now (pollInterval g) s"
    | (timeout) "\<not> due_now (interval g) s" "\<not> due_now (pollInterval g) s"
    by blast
  then show ?thesis
  proof cases
    case progress
    then have "step (next_timer r s) s = progressTick r s"
      using f assms(2) by (simp add: next_timer_def unit_interval_def)
    then show ?thesis
      using progressTick_polling(1) [OF assms(1), where r = r]
        progressTick_polling(2) [OF assms(1) progress f(1), where r = r] by simp
  next
    case poll
    then have "step (next_timer r s) s = pollTick s"
      using f by (simp add: next_timer_def)
    then show ?thesis
      using pollTick_polling(1) [OF assms(1)] pollTick_polling(2) [OF assms(1) poll(2) f(1)] by simp
  next
    case timeout
    then have e: "step (next_timer r s) s = timeoutFires s"
      using f by (simp add: next_timer_def)
    have "is_next D s"
      using timeout f
      by (cases "interval g") (auto simp add: due_now_def is_next_def d option_list_def)
    then show ?thesis
      using timeoutFires_due [OF assms(1)] e by simp
  qed
qed

lemma elapse_unmounted: "generationProgress s = None \<Longrightarrow> elapse rs s = s"
  by (induction rs) (simp_all add: next_timer_def timeoutFires_def)

lemma elapse_reaches_timeout:
  assumes "list_all unit_interval rs"
  shows "polling D s \<Longrightarrow> remaining D s < 1000 * length rs
    \<Longrightarrow> timed_out D (elapse rs s) \<and> now (elapse rs s) = D"
  using assms
proof (induction rs arbitrary: s)
  case Nil
  then show ?case by simp
next
  case (Cons r rs)
  let ?s = "step (next_timer r s) s"
  have r: "unit_interval r" and rs: "list_all unit_interval rs"
    using Cons.prems by simp_all
  from next_timer_step [OF Cons.prems(1) r]
  show ?case
  proof
    assume t: "timed_out D ?s \<and> now ?s = D"
    then have "generationProgress ?s = None" by (simp add: timed_out_def)
    then have "elapse rs ?s = ?s" by (rule elapse_unmounted)
    then show ?thesis using t by simp
  next
    assume p: "polling D ?s \<and> remaining D ?s + 1000 \<le> remaining D s"
    then have "remaining D ?s < 1000 * length rs"
      using Cons.prems(2) by simp
    then show ?thesis
      using Cons.IH [of ?s] p rs by simp
  qed
qed

lemma swallowed_quiet: "swallowed e \<Longrightarrow> quiet e"
  by (cases e) (auto elim: transient.elims)

lemma swallowed_quiet_list: "list_all swallowed es \<Longrightarrow> list_all quiet es"
  by (induction es) (simp_all add: swallowed_quiet)

lemma transient_not_terminal: "transient reply \<Longrightarrow> \<not> terminal reply"
  by (cases reply) simp_all

lemmas traces = run_def submit_default_def accepted_def happy_path_def provider_failure_def
  query_in_flight_def

lemmas evaluation = inputs upload_handlers app_handlers render_defs async_defs timer_defs
  progress_helpers

lemma unit_zeros: "list_all unit_interval (replicate n 0)"
  by (simp add: list_all_iff unit_interval_def)

text \<open>
  C2, as stated, fails in its last part: the code has no timed-out status. When the
  clock runs for 601 timer events after the job was accepted and no query is answered,
  the request ends with the status error, the same status as when the provider reports
  a failure; only the message differs.
\<close>

theorem timeout_is_error_counterexample:
  "status (generationState (elapse (replicate 601 0) (run accepted initialState))) = Error
   \<and> status (generationState (run provider_failure initialState)) = Error
   \<and> error (generationState (elapse (replicate 601 0) (run accepted initialState)))
       = Some ''Generation timed out. Please try again.''
   \<and> error (generationState (run provider_failure initialState))
       = Some ''Generation failed. Please try again.''"
proof -
  have p: "polling 300000 (run accepted initialState)"
    by (simp add: polling_def traces inputs upload_handlers app_handlers render_defs async_defs)
  have r: "remaining 300000 (run accepted initialState) < 1000 * length (replicate 601 (0::rat))"
    by (simp add: remaining_def traces inputs upload_handlers app_handlers render_defs async_defs)
  have "timed_out 300000 (elapse (replicate 601 0) (run accepted initialState))"
    using elapse_reaches_timeout [OF unit_zeros p r] by simp
  moreover have "status (generationState (run provider_failure initialState)) = Error"
    "error (generationState (run provider_failure initialState)) = Some ''Generation failed. Please try again.''"
    by (simp_all add: traces evaluation)
  ultimately show ?thesis by (simp add: timed_out_def)
qed

text \<open>
  C2, amended. When the poller is started for a job and from then on only the clock
  moves, timers fire and status queries are answered with something that is not
  terminal, then in every state reached the poller is either still running, with the
  clock at most 300000 ms after the start, or the request has ended by the timeout,
  with the clock at least 300000 ms after the start; and when the clock simply runs
  (601 timer events are enough), the request ends exactly 300000 ms after the start.
  It ends with the status error, the status of a provider failure, and the message
  "Generation timed out. Please try again.".
\<close>

theorem poller_stops_at_timeout:
  assumes "gid \<noteq> []" and "status (generationState s) \<noteq> Processing"
    and "list_all quiet es"
    and "list_all unit_interval rs" and "600 < length rs"
  shows "polling (now s + 300000) (handleGenerationStart (Some gid) s)
    \<and> (polling (now s + 300000) (run es (handleGenerationStart (Some gid) s))
        \<or> timed_out (now s + 300000) (run es (handleGenerationStart (Some gid) s)))
    \<and> timed_out (now s + 300000) (elapse rs (handleGenerationStart (Some gid) s))
    \<and> now (elapse rs (handleGenerationStart (Some gid) s)) = now s + 300000"
proof -
  let ?D = "now s + 300000" and ?s = "handleGenerationStart (Some gid) s"
  have start: "polling ?D ?s"
    using assms(1) by (rule polling_start)
  have safe: "polling ?D (run es ?s) \<or> timed_out ?D (run es ?s)"
    using assms(3) start by (rule quiet_run(1))
  have "remaining ?D ?s = 600000"
    using assms(1,2) by (rule remaining_start)
  then have "remaining ?D ?s < 1000 * length rs"
    using assms(5) by simp
  then have live: "timed_out ?D (elapse rs ?s) \<and> now (elapse rs ?s) = ?D"
    using elapse_reaches_timeout [OF assms(4) start] by simp
  show ?thesis
    using start safe live by simp
qed


text \<open>
  C2, amended: at the job \<open>abc123\<close>, accepted while uploading at time 0, with one query
  answered "processing".
\<close>

theorem poller_stops_at_timeout_witness:
  "''abc123'' \<noteq> []
   \<and> status (generationState (run submit_default initialState)) \<noteq> Processing
   \<and> list_all quiet [ProgressTick 0, PollTick, PollDone 0 (PollData ''processing'' None)]
   \<and> list_all unit_interval (replicate 601 0) \<and> 600 < length (replicate 601 (0::rat))
   \<and> polling 300000 (handleGenerationStart (Some ''abc123'') (run submit_default initialState))
   \<and> (polling 300000 (run [ProgressTick 0, PollTick, PollDone 0 (PollData ''processing'' None)]
          (handleGenerationStart (Some ''abc123'') (run submit_default initialState)))
       \<or> timed_out 300000 (run [ProgressTick 0, PollTick, PollDone 0 (PollData ''processing'' None)]
          (handleGenerationStart (Some ''abc123'') (run submit_default initialState))))
   \<and> timed_out 300000 (elapse (replicate 601 0)
        (handleGenerationStart (Some ''abc123'') (run submit_default initialState)))
   \<and> now (elapse (replicate 601 0)
        (handleGenerationStart (Some ''abc123'') (run submit_default initialState))) = 300000"
proof -
  have a: "''abc123'' \<noteq> []" by simp
  have b: "status (generationState (run submit_default initialState)) \<noteq> Processing"
    and t: "now (run submit_default initialState) = 0"
    by (simp_all add: traces inputs upload_handlers app_handlers render_defs async_defs)
  have c: "list_all quiet [ProgressTick 0, PollTick, PollDone 0 (PollData ''processing'' None)]"
    by simp
  have d: "600 < length (replicate 601 (0::rat))" by simp
  show ?thesis
    using poller_stops_at_timeout [OF a b c unit_zeros d] a b c unit_zeros [of 601] d t
    by simp
qed

text \<open>
  C4. A status query that fails (the fetch rejects, the response is not ok, the body is
  not JSON) changes nothing but the list of queries in flight: the poller keeps running
  with the same timers and the generation state is untouched; when the poll interval is
  next due, its tick issues the next query; under any sequence of such failures, ticks
  and delays the poller is still running or the request has ended by the timeout; and
  when the clock simply runs, it ends by the timeout.
\<close>

theorem transient_failures_are_swallowed:
  assumes "transient reply" and "polling D s" and "list_all swallowed es"
    and "list_all unit_interval rs" and "remaining D s < 1000 * length rs"
  shows "step (PollDone i reply) s
      = (if i < length (polls s) then s\<lparr>polls := remove_nth i (polls s)\<rparr> else s)
    \<and> polling D (step (PollDone i reply) s)
    \<and> (poll_due s \<longrightarrow>
         requests (step PollTick (step (PollDone i reply) s))
           = requests s @ map GetGeneration (option_list (id' (generationState s))))
    \<and> (polling D (run es s) \<or> timed_out D (run es s))
    \<and> timed_out D (elapse rs (step (PollDone i reply) s))"
proof -
  let ?s = "step (PollDone i reply) s"
  have quiet: "\<not> terminal reply"
    using assms(1) by (rule transient_not_terminal)
  then have eq: "?s = (if i < length (polls s) then s\<lparr>polls := remove_nth i (polls s)\<rparr> else s)"
    by (simp add: pollDone_quiet)
  then have same: "generationProgress ?s = generationProgress s"
    "generationState ?s = generationState s" "now ?s = now s" "requests ?s = requests s"
    by simp_all
  have p: "polling D ?s"
    using assms(2) same by (simp add: polling_def)
  have retry: "requests (step PollTick ?s)
      = requests s @ map GetGeneration (option_list (id' (generationState s)))" if "poll_due s"
  proof -
    from assms(2) obtain g q gid where f: "generationProgress s = Some g"
      "pollInterval g = Some q" "id' (generationState s) = Some gid"
      by (rule polling_elim)
    have "is_next q ?s"
      using that f same by (simp add: poll_due_def due_now_def is_next_def dues_def)
    then show ?thesis
      using f same by (simp add: pollTick_def option_list_def)
  qed
  have safe: "polling D (run es s) \<or> timed_out D (run es s)"
    using swallowed_quiet_list [OF assms(3)] assms(2) by (rule quiet_run(1))
  have "remaining D ?s = remaining D s"
    using same by (simp add: remaining_def)
  then have live: "timed_out D (elapse rs ?s)"
    using elapse_reaches_timeout [OF assms(4) p] assms(5) by simp
  show ?thesis
    using eq p retry safe live by simp
qed

text \<open>
  C4: at the state with one query in flight and the poll interval due next, where the
  query fails; then a second query fails twice over.
\<close>

theorem transient_failures_are_swallowed_witness:
  "transient PollRejected
   \<and> polling 300000 (run query_in_flight initialState)
   \<and> list_all swallowed [PollDone 0 PollNotOk, ProgressTick 0, PollTick, PollDone 0 PollBadJson]
   \<and> list_all unit_interval (replicate 601 0)
   \<and> remaining 300000 (run query_in_flight initialState) < 1000 * length (replicate 601 (0::rat))
   \<and> poll_due (run query_in_flight initialState)
   \<and> polls (run query_in_flight initialState) = [''abc123'']
   \<and> step (PollDone 0 PollRejected) (run query_in_flight initialState)
       = (run query_in_flight initialState)\<lparr>polls := []\<rparr>
   \<and> polling 300000 (step (PollDone 0 PollRejected) (run query_in_flight initialState))
   \<and> requests (step PollTick (step (PollDone 0 PollRejected) (run query_in_flight initialState)))
       = requests (run query_in_flight initialState) @ [GetGeneration ''abc123'']
   \<and> timed_out 300000 (elapse (replicate 601 0)
        (step (PollDone 0 PollRejected) (run query_in_flight initialState)))"
proof -
  have a: "transient PollRejected" by simp
  have b: "polling 300000 (run query_in_flight initialState)"
    by (simp add: polling_def traces evaluation)
  have c: "list_all swallowed [PollDone 0 PollNotOk, ProgressTick 0, PollTick, PollDone 0 PollBadJson]"
    by simp
  have d: "remaining 300000 (run query_in_flight initialState) < 1000 * length (replicate 601 (0::rat))"
    by (simp add: remaining_def traces evaluation)
  have e: "poll_due (run query_in_flight initialState)"
    by (simp add: poll_due_def due_now_def traces evaluation)
  have f: "polls (run query_in_flight initialState) = [''abc123'']"
    "id' (generationState (run query_in_flight initialState)) = Some ''abc123''"
    by (simp_all add: traces evaluation)
  show ?thesis
    using transient_failures_are_swallowed [OF a b c unit_zeros d, of 0] a b c unit_zeros [of 601] d e f
    by (auto simp add: remove_nth_def option_list_def)
qed

subsection \<open>The progress values\<close>

lemma progress_bounded_step:
  assumes "progress_bounded (generationState s)"
  shows "progress_bounded (generationState (step e s))"
  using generationState_step [of e s] assms
  by (auto simp add: progress_bounded_def)

lemma progress_bounded_run:
  "progress_bounded (generationState s) \<Longrightarrow> progress_bounded (generationState (run es s))"
  unfolding run_def
  by (induction es arbitrary: s) (simp_all add: progress_bounded_step)

lemma progress_step:
  assumes "progress_bounded (generationState s)"
  shows "progress (generationState (step e s)) < progress (generationState s)
      \<longrightarrow> progress (generationState (step e s)) = 0
        \<and> (status (generationState (step e s)) = Processing
           \<or> status (generationState (step e s)) = Idle)"
  using generationState_step [of e s] assms
  by (auto simp add: progress_bounded_def)

lemma animation_setGenerationState:
  assumes "animation_bounded s"
  shows "animation_bounded (setGenerationState gs s)"
  using assms
  by (auto simp add: animation_bounded_def render_defs Let_def split: option.splits)

lemma animation_same_status:
  assumes "generationProgress s = Some g" and "status gs = status (generationState s)"
    and "generationProgress (setGenerationState gs s) = Some g'"
  shows "currentProgress g' = currentProgress g"
  using assms
  by (auto simp add: render_defs Let_def split: if_splits)


lemma animation_frame:
  assumes "generationProgress s' = generationProgress s"
  shows "animation_bounded s' = animation_bounded s"
  using assms by (simp add: animation_bounded_def)

lemma animation_progressTick:
  assumes "animation_bounded s" and "0 \<le> r" and "r < 1"
  shows "animation_bounded (progressTick r s)"
  using assms
  by (auto simp add: animation_bounded_def progressTick_def Let_def split: option.splits)

lemma animation_step:
  assumes "animation_bounded s"
  shows "animation_bounded (step e s)"
proof (cases e)
  case (Drag d)
  then show ?thesis using assms
    by (simp add: handleDrag_def setDragActive_def animation_bounded_def)
next
  case (Drop files)
  then show ?thesis using assms
    by (simp add: handleDrop_def handleFiles_def setError_def setDragActive_def Let_def
        animation_bounded_def split: option.splits list.splits)
next
  case (Change files)
  then show ?thesis using assms
    by (simp add: handleChange_def handleFiles_def setError_def Let_def
        animation_bounded_def split: option.splits list.splits)
next
  case (ReaderLoad i)
  have "animation_bounded (s\<lparr>readers := rs, photoUpload := pu, uploadedImage := img\<rparr>)" for rs pu img
    using assms by (simp add: animation_bounded_def)
  then have "animation_bounded (handleImageUpload d c (s\<lparr>readers := rs, photoUpload := pu\<rparr>))" for d c rs pu
    using animation_setGenerationState
    by (simp add: handleImageUpload_def Let_def animation_bounded_def)
  then show ?thesis using ReaderLoad assms
    by (simp add: readerLoad_def split: prod.splits)
next
  case (BlobDone i ok)
  have "animation_bounded (s\<lparr>uploads := us\<rparr>)" for us
    using assms by (simp add: animation_bounded_def)
  then have "animation_bounded (uploadFailed (s\<lparr>uploads := us\<rparr>))" for us
    by (simp add: uploadFailed_def animation_setGenerationState)
  then show ?thesis using BlobDone assms
    by (simp add: blobDone_def animation_bounded_def split: upload.splits phase.splits)
next
  case (PostDone i reply)
  have "animation_bounded (s\<lparr>uploads := us\<rparr>)" for us
    using assms by (simp add: animation_bounded_def)
  then have "animation_bounded (uploadFailed (s\<lparr>uploads := us\<rparr>))"
    "animation_bounded (handleGenerationStart g (s\<lparr>uploads := us\<rparr>))" for us g
    by (simp_all add: uploadFailed_def handleGenerationStart_def animation_setGenerationState)
  then show ?thesis using PostDone assms
    by (simp add: postDone_def Let_def split: upload.splits phase.splits post_reply.splits)
next
  case (SelectCharacter c)
  then show ?thesis using assms
    by (auto simp add: selectCharacter_def animation_bounded_def render_defs Let_def split: option.splits)
next
  case ClickReset
  then show ?thesis using assms
    by (simp add: clickReset_def resetGeneration_def animation_bounded_def shown_def)
next
  case (Delay d)
  then show ?thesis using assms
    by (simp add: delay_def animation_bounded_def)
next
  case (ProgressTick r)
  then show ?thesis using assms animation_progressTick by simp
next
  case PollTick
  then show ?thesis using assms
    by (auto simp add: pollTick_def animation_bounded_def split: option.splits)
next
  case TimeoutFires
  then show ?thesis using assms
    by (auto simp add: timeoutFires_def handleGenerationError_def animation_bounded_def shown_def
        split: option.splits)
next
  case (PollDone i reply)
  show ?thesis
  proof (cases "terminal reply")
    case False
    then show ?thesis using PollDone assms
      by (simp add: pollDone_quiet animation_bounded_def)
  next
    case True
    then obtain st url where "reply = PollData st url" "st = ''completed'' \<or> st = ''failed''"
      by (cases reply) simp_all
    then show ?thesis using PollDone assms
      by (auto simp add: pollDone_def Let_def app_handlers progress_helpers animation_bounded_def shown_def)
  qed
qed

lemma animation_run: "animation_bounded s \<Longrightarrow> animation_bounded (run es s)"
  unfolding run_def
  by (induction es arbitrary: s) (simp_all add: animation_step)


lemma animation_monotone_step:
  assumes "generationProgress s = Some g" and "generationProgress (step e s) = Some g'"
    and "status (generationState (step e s)) = status (generationState s)"
  shows "currentProgress g \<le> currentProgress g'"
proof (cases e)
  case (Drag d)
  then show ?thesis using assms
    by (simp add: handleDrag_def setDragActive_def split: if_splits)
next
  case (Drop files)
  then show ?thesis using assms
    by (simp add: handleDrop_def handleFiles_def setError_def setDragActive_def Let_def
        split: option.splits list.splits if_splits)
next
  case (Change files)
  then show ?thesis using assms
    by (simp add: handleChange_def handleFiles_def setError_def Let_def
        split: option.splits list.splits if_splits)
next
  case (ReaderLoad i)
  then show ?thesis using assms
    by (auto simp add: readerLoad_def handleImageUpload_def render_defs Let_def
        split: prod.splits if_splits)
next
  case (BlobDone i ok)
  then show ?thesis using assms
    by (auto simp add: blobDone_def uploadFailed_def render_defs
        split: upload.splits phase.splits if_splits)
next
  case (PostDone i reply)
  then show ?thesis using assms
    by (auto simp add: postDone_def uploadFailed_def handleGenerationStart_def render_defs Let_def
        split: upload.splits phase.splits post_reply.splits if_splits)
next
  case (SelectCharacter c)
  then show ?thesis using assms
    by (auto simp add: selectCharacter_def render_defs Let_def split: if_splits)
next
  case ClickReset
  then show ?thesis using assms
    by (auto simp add: clickReset_def resetGeneration_def shown_def split: if_splits)
next
  case (Delay d)
  then show ?thesis using assms
    by (simp add: delay_def)
next
  case (ProgressTick r)
  then show ?thesis using assms
    by (auto simp add: progressTick_def Let_def split: option.splits if_splits)
next
  case PollTick
  then show ?thesis using assms
    by (auto simp add: pollTick_def split: option.splits if_splits)
next
  case TimeoutFires
  then show ?thesis using assms
    by (auto simp add: timeoutFires_def handleGenerationError_def shown_def
        split: option.splits if_splits)
next
  case (PollDone i reply)
  show ?thesis
  proof (cases "terminal reply")
    case False
    then show ?thesis using PollDone assms
      by (simp add: pollDone_quiet split: if_splits)
  next
    case True
    then obtain st url where "reply = PollData st url" "st = ''completed'' \<or> st = ''failed''"
      by (cases reply) simp_all
    then show ?thesis using PollDone assms
      by (auto simp add: pollDone_def Let_def app_handlers progress_helpers shown_def split: if_splits)
  qed
qed

text \<open>
  C9, as stated, fails. After a completed generation a photo submitted without a reset
  is uploading with progress 100, and when it is accepted the progress is 0. And when a
  second FileReader finishes while the first photo is being processed, the status goes
  back to uploading and the animated progress from 25 back to 10, with no terminal
  state in between.
\<close>

theorem progress_decreases_counterexample:
  "status (generationState (run resubmit_posted initialState)) = Uploading
   \<and> progress (generationState (run resubmit_posted initialState)) = 100
   \<and> status (generationState (step (PostDone 0 (PostData (Some ''job-2'')))
        (run resubmit_posted initialState))) = Processing
   \<and> progress (generationState (step (PostDone 0 (PostData (Some ''job-2'')))
        (run resubmit_posted initialState))) = 0
   \<and> status (generationState (run late_reader initialState)) = Processing
   \<and> map_option currentProgress (generationProgress (run late_reader initialState)) = Some 25
   \<and> status (generationState (step (ReaderLoad 0) (run late_reader initialState))) = Uploading
   \<and> map_option currentProgress
        (generationProgress (step (ReaderLoad 0) (run late_reader initialState))) = Some 10"
proof -
  have a: "generationState (run resubmit_posted initialState)
      = \<lparr>id' = Some ''abc123'', status = Uploading, progress = 100,
         result = Some ''img://abc123'', error = None\<rparr>"
    "uploads (run resubmit_posted initialState)
      = [Upload ''data:image/jpeg;base64,AAAA'' ''sailor-moon'' AwaitPost]"
    by (simp_all add: resubmit_posted_def resubmit_after_completion_def traces evaluation)
  have b: "generationState (step (PostDone 0 (PostData (Some ''job-2'')))
        (run resubmit_posted initialState))
      = \<lparr>id' = Some ''job-2'', status = Processing, progress = 0,
         result = Some ''img://abc123'', error = None\<rparr>"
    by (simp add: a postDone_def handleGenerationStart_def Let_def)
  have c: "status (generationState (run late_reader initialState)) = Processing"
    "map_option currentProgress (generationProgress (run late_reader initialState)) = Some 25"
    "status (generationState (step (ReaderLoad 0) (run late_reader initialState))) = Uploading"
    "map_option currentProgress
        (generationProgress (step (ReaderLoad 0) (run late_reader initialState))) = Some 10"
    by (simp_all add: late_reader_def png1_def traces evaluation)
  show ?thesis using a b c by simp
qed

text \<open>
  C9, amended. In every reachable state the progress of the generation state is at
  most 100 and the animated progress of the component lies between 0 and 100; the
  progress is exactly 100 whenever the status is completed; a step that ends in the
  status error leaves the progress at its last value; the progress decreases only when
  a generation is started or reset, which set it to 0; and while the component stays
  mounted and the status stays the same, the animated progress never decreases.
\<close>

theorem progress_bounds_and_steps:
  "progress (generationState (run es initialState)) \<le> 100
   \<and> (status (generationState (run es initialState)) = Completed \<longrightarrow>
        progress (generationState (run es initialState)) = 100)
   \<and> (generationProgress (run es initialState) = Some g \<longrightarrow>
        0 \<le> currentProgress g \<and> currentProgress g \<le> 100)
   \<and> (status (generationState (step e (run es initialState))) = Error \<longrightarrow>
        progress (generationState (step e (run es initialState)))
          = progress (generationState (run es initialState)))
   \<and> (progress (generationState (step e (run es initialState)))
          < progress (generationState (run es initialState)) \<longrightarrow>
        progress (generationState (step e (run es initialState))) = 0
        \<and> (status (generationState (step e (run es initialState))) = Processing
           \<or> status (generationState (step e (run es initialState))) = Idle))
   \<and> (generationProgress (run es initialState) = Some g
        \<and> generationProgress (step e (run es initialState)) = Some g'
        \<and> status (generationState (step e (run es initialState)))
            = status (generationState (run es initialState)) \<longrightarrow>
        currentProgress g \<le> currentProgress g')"
proof -
  let ?s = "run es initialState"
  have "progress_bounded (generationState initialState)"
    by (simp add: progress_bounded_def initialState_def)
  then have b: "progress_bounded (generationState ?s)"
    by (rule progress_bounded_run)
  have "animation_bounded initialState"
    by (simp add: animation_bounded_def initialState_def)
  then have "animation_bounded ?s"
    by (rule animation_run)
  then have c: "0 \<le> currentProgress g \<and> currentProgress g \<le> 100"
    if "generationProgress ?s = Some g"
    using that by (simp add: animation_bounded_def)
  have d: "status (generationState (step e ?s)) = Error \<longrightarrow>
      progress (generationState (step e ?s)) = progress (generationState ?s)"
    using generationState_step [of e ?s] by auto
  have m: "currentProgress g \<le> currentProgress g'"
    if "generationProgress ?s = Some g" and "generationProgress (step e ?s) = Some g'"
      and "status (generationState (step e ?s)) = status (generationState ?s)"
    using that by (rule animation_monotone_step)
  show ?thesis
    using b c d m progress_step [OF b, of e] by (simp add: progress_bounded_def)
qed


text \<open>
  C9, amended: at the completed run; at the state with a query in flight, where the
  animation ticks and where the provider then reports a failure; and at the second
  submission after a completion, when it is accepted.
\<close>

theorem progress_bounds_and_steps_witness:
  "status (generationState (run happy_path initialState)) = Completed
   \<and> progress (generationState (run happy_path initialState)) = 100
   \<and> map_option currentProgress (generationProgress (run query_in_flight initialState)) = Some 20
   \<and> map_option currentProgress
        (generationProgress (step (ProgressTick (1 / 2)) (run query_in_flight initialState))) = Some 25
   \<and> status (generationState (step (ProgressTick (1 / 2)) (run query_in_flight initialState)))
        = status (generationState (run query_in_flight initialState))
   \<and> status (generationState (step (PollDone 0 (PollData ''failed'' None))
        (run query_in_flight initialState))) = Error
   \<and> progress (generationState (step (PollDone 0 (PollData ''failed'' None))
        (run query_in_flight initialState)))
        = progress (generationState (run query_in_flight initialState))
   \<and> progress (generationState (step (PostDone 0 (PostData (Some ''job-2'')))
        (run resubmit_posted initialState)))
        < progress (generationState (run resubmit_posted initialState))
   \<and> progress (generationState (step (PostDone 0 (PostData (Some ''job-2'')))
        (run resubmit_posted initialState))) = 0
   \<and> status (generationState (step (PostDone 0 (PostData (Some ''job-2'')))
        (run resubmit_posted initialState))) = Processing"
proof -
  let ?g = "\<lparr>currentProgress = 20, statusMessage = ''Generating your cosplay image...'',
             interval = Some 4000, pollInterval = Some 4000, timeout = Some 300000\<rparr>"
  let ?g' = "\<lparr>currentProgress = 25, statusMessage = ''Generating your cosplay image...'',
             interval = Some 5000, pollInterval = Some 4000, timeout = Some 300000\<rparr>"
  have a: "status (generationState (run happy_path initialState)) = Completed"
    by (simp add: traces evaluation)
  have q: "generationProgress (run query_in_flight initialState) = Some ?g"
    "generationState (run query_in_flight initialState)
      = \<lparr>id' = Some ''abc123'', status = Processing, progress = 0, result = None, error = None\<rparr>"
    "polls (run query_in_flight initialState) = [''abc123'']"
    "now (run query_in_flight initialState) = 3000"
    by (simp_all add: traces evaluation)
  have t: "generationProgress (step (ProgressTick (1 / 2)) (run query_in_flight initialState)) = Some ?g'"
    "generationState (step (ProgressTick (1 / 2)) (run query_in_flight initialState))
      = generationState (run query_in_flight initialState)"
    by (simp_all add: q timer_defs Let_def)
  have f: "status (generationState (step (PollDone 0 (PollData ''failed'' None))
        (run query_in_flight initialState))) = Error"
    by (simp add: q pollDone_def handleGenerationError_def clearPollInterval_def Let_def)
  have r: "generationState (run resubmit_posted initialState)
      = \<lparr>id' = Some ''abc123'', status = Uploading, progress = 100,
         result = Some ''img://abc123'', error = None\<rparr>"
    "uploads (run resubmit_posted initialState)
      = [Upload ''data:image/jpeg;base64,AAAA'' ''sailor-moon'' AwaitPost]"
    by (simp_all add: resubmit_posted_def resubmit_after_completion_def traces evaluation)
  have p: "progress (generationState (step (PostDone 0 (PostData (Some ''job-2'')))
        (run resubmit_posted initialState))) = 0"
    "status (generationState (step (PostDone 0 (PostData (Some ''job-2'')))
        (run resubmit_posted initialState))) = Processing"
    by (simp_all add: r postDone_def handleGenerationStart_def Let_def)
  show ?thesis
    using progress_bounds_and_steps [of happy_path ?g "ProgressTick (1 / 2)" ?g']
      progress_bounds_and_steps [of query_in_flight ?g "ProgressTick (1 / 2)" ?g']
      progress_bounds_and_steps [of query_in_flight ?g "PollDone 0 (PollData ''failed'' None)" ?g']
      progress_bounds_and_steps [of resubmit_posted ?g "PostDone 0 (PostData (Some ''job-2''))" ?g']
      a q t f r p
    by simp
qed

subsection \<open>The simulated clock\<close>

text \<open>
  In every reachable state no running timer is due before the clock and the poll
  interval runs only for a generation id, so that the clock never runs backwards and
  the poll tick always has an id to ask for.
\<close>

lemma fold_min_ge: "(\<forall>x \<in> set ds. n \<le> x) \<Longrightarrow> n \<le> m \<Longrightarrow> n \<le> fold min ds (m::nat)"
  by (induction ds arbitrary: m) simp_all

lemma timers_sound_render:
  assumes "timers_sound s" and "generationState s' = gs" and "now s' = now s"
    and "generationProgress s' = generationProgress s"
  shows "timers_sound (render old s')"
  using assms
  by (auto simp add: timers_sound_def dues_def option_list_def render_def rerender_def shown_def
      progressEffect_def progressCleanup_def pollEffect_def pollCleanup_def mounted_def Let_def
      split: option.splits if_splits)


lemma timers_sound_setGenerationState:
  assumes "timers_sound s"
  shows "timers_sound (setGenerationState gs s)"
  unfolding setGenerationState_def
  using assms by (rule timers_sound_render) simp_all

lemma timers_sound_frame:
  assumes "timers_sound s" and "now s' = now s" and "generationProgress s' = generationProgress s"
    and "generationState s' = generationState s"
  shows "timers_sound s'"
  using assms by (auto simp add: timers_sound_def dues_def split: option.splits)

lemma timers_sound_step:
  assumes "timers_sound s"
  shows "timers_sound (step e s) \<and> now s \<le> now (step e s)"
proof (cases e)
  case (Drag d)
  then show ?thesis using assms
    by (auto simp add: handleDrag_def setDragActive_def intro: timers_sound_frame)
next
  case (Drop files)
  then show ?thesis using assms
    by (auto simp add: handleDrop_def handleFiles_def setError_def setDragActive_def Let_def
        split: option.splits list.splits intro: timers_sound_frame)
next
  case (Change files)
  then show ?thesis using assms
    by (auto simp add: handleChange_def handleFiles_def setError_def Let_def
        split: option.splits list.splits intro: timers_sound_frame)
next
  case (ReaderLoad i)
  have "timers_sound (s\<lparr>readers := rs, photoUpload := pu, uploadedImage := img\<rparr>)" for rs pu img
    using assms by (rule timers_sound_frame) simp_all
  then have "timers_sound (setGenerationState gs (s\<lparr>readers := rs, photoUpload := pu, uploadedImage := img\<rparr>))"
    for gs rs pu img
    by (rule timers_sound_setGenerationState)
  then have "timers_sound ((setGenerationState gs (s\<lparr>readers := rs, photoUpload := pu, uploadedImage := img\<rparr>))
      \<lparr>uploads := us\<rparr>)" for gs rs pu img us
    by (rule timers_sound_frame) simp_all
  then show ?thesis using ReaderLoad assms
    by (simp add: readerLoad_def handleImageUpload_def Let_def split: prod.splits)
next
  case (BlobDone i ok)
  have "timers_sound (s\<lparr>uploads := us\<rparr>)" for us
    using assms by (rule timers_sound_frame) simp_all
  then have "timers_sound (uploadFailed (s\<lparr>uploads := us\<rparr>))" for us
    by (simp add: uploadFailed_def timers_sound_setGenerationState)
  moreover have "timers_sound (s\<lparr>uploads := us, requests := rq\<rparr>)" for us rq
    using assms by (rule timers_sound_frame) simp_all
  ultimately show ?thesis using BlobDone assms
    by (simp add: blobDone_def uploadFailed_def split: upload.splits phase.splits)
next
  case (PostDone i reply)
  have "timers_sound (s\<lparr>uploads := us\<rparr>)" for us
    using assms by (rule timers_sound_frame) simp_all
  then have "timers_sound (uploadFailed (s\<lparr>uploads := us\<rparr>))"
    "timers_sound (handleGenerationStart g (s\<lparr>uploads := us\<rparr>))" for us g
    by (simp_all add: uploadFailed_def handleGenerationStart_def timers_sound_setGenerationState)
  then show ?thesis using PostDone assms
    by (simp add: postDone_def uploadFailed_def handleGenerationStart_def Let_def
        split: upload.splits phase.splits post_reply.splits)
next
  case (SelectCharacter c)
  have "timers_sound (render old (s\<lparr>selectedCharacter := c\<rparr>))" for old
    using assms by (rule timers_sound_render) simp_all
  then show ?thesis using SelectCharacter assms
    by (simp add: selectCharacter_def)
next
  case ClickReset
  then show ?thesis using assms timers_sound_setGenerationState
    by (auto simp add: clickReset_def resetGeneration_def
        intro: timers_sound_frame [OF timers_sound_setGenerationState])
next
  case (Delay d)
  have a: "\<forall>x \<in> set (dues s). now s \<le> x"
    using assms by (simp add: timers_sound_def list_all_iff)
  then have b: "now s \<le> fold min (dues s) (now s + d)"
    by (rule fold_min_ge) simp
  have c: "\<forall>x \<in> set (dues s). fold min (dues s) (now s + d) \<le> x"
    by (simp add: fold_min_le_elem)
  have "dues (s\<lparr>now := t\<rparr>) = dues s" for t
    by (simp add: dues_def)
  then have "timers_sound (delay d s)"
    using assms c by (auto simp add: delay_def timers_sound_def list_all_iff split: option.splits)
  then show ?thesis using Delay b
    by (simp add: delay_def)
next
  case (ProgressTick r)
  then show ?thesis using assms
    by (auto simp add: timers_sound_def timer_defs Let_def split: option.splits)
next
  case PollTick
  then show ?thesis using assms
    by (auto simp add: timers_sound_def timer_defs truthy_def split: option.splits)
next
  case TimeoutFires
  then show ?thesis using assms
    by (auto simp add: timers_sound_def timer_defs handleGenerationError_def shown_def
        split: option.splits)
next
  case (PollDone i reply)
  show ?thesis
  proof (cases "terminal reply")
    case False
    have "timers_sound (s\<lparr>polls := ps\<rparr>)" for ps
      using assms by (rule timers_sound_frame) simp_all
    then show ?thesis using False PollDone assms
      by (simp add: pollDone_quiet)
  next
    case True
    then obtain st url where "reply = PollData st url" "st = ''completed'' \<or> st = ''failed''"
      by (cases reply) simp_all
    then show ?thesis using PollDone assms
      by (auto simp add: pollDone_def Let_def app_handlers progress_helpers timers_sound_def
          dues_def shown_def)
  qed
qed

lemma timers_sound_run: "timers_sound s \<Longrightarrow> timers_sound (run es s) \<and> now s \<le> now (run es s)"
  unfolding run_def
proof (induction es arbitrary: s)
  case Nil
  then show ?case by simp
next
  case (Cons e es)
  have a: "timers_sound (step e s)" and b: "now s \<le> now (step e s)"
    using timers_sound_step [OF Cons.prems, of e] by simp_all
  have "timers_sound (fold step es (step e s))"
    and "now (step e s) \<le> now (fold step es (step e s))"
    using Cons.IH [OF a] by simp_all
  then show ?case using b by simp
qed

lemma clock_never_runs_backwards:
  "now (run es initialState) \<le> now (run (es @ es') initialState)"
proof -
  have "timers_sound initialState"
    by (simp add: timers_sound_def initialState_def dues_def)
  then have "timers_sound (run es initialState)"
    using timers_sound_run by blast
  then have "now (run es initialState) \<le> now (run es' (run es initialState))"
    using timers_sound_run by blast
  then show ?thesis by (simp add: run_def)
qed

end
